theory Spec2Isabelle
  imports Main "HOL-Library.Multiset" "HOL-Library.Product_Lexorder" "HOL-Library.List_Lexorder"
    "HOL-Library.AList"
begin

section \<open>Time normalisation: \<open>server/lib/time\<close>\<close>

subsection \<open>JavaScript values and the runtime library\<close>

text \<open>
  A JavaScript number as far as \<open>toUtcMs\<close> distinguishes them: an integer-valued finite
  double, \<open>NaN\<close> or one of the infinities. Integer arithmetic below is exact wherever the
  double arithmetic of the source is (magnitudes below \<open>2^53\<close>); fractional inputs are not
  part of the model.
\<close>

datatype jsnum = Fin int | NaN | PosInf | NegInf

text \<open>The argument of \<open>toUtcMs\<close>: \<open>string | number | null | undefined\<close>.\<close>

datatype tinput = INull | INum jsnum | IStr string

datatype exn = RangeError

text \<open>
  What the source takes from the JavaScript runtime and does not define itself.
  \<^item> \<open>intl tz\<close> is \<open>None\<close> when \<open>new Intl.DateTimeFormat("en-US", {timeZone: tz, ...})\<close>
    throws (a name that is no time zone); otherwise \<open>Some wall\<close>, where \<open>wall u\<close> is
    \<open>Date.UTC\<close> applied to the year, month - 1, day, hour, minute and second that
    \<open>formatToParts(new Date(u))\<close> yields: the zone's wall-clock reading at instant \<open>u\<close>,
    read as if it were UTC (lines 30 to 40 of \<open>getTzOffsetMs\<close>).
  \<^item> \<open>date_parse s\<close> is \<open>Date.parse(s)\<close>, \<open>None\<close> for \<open>NaN\<close>.
  \<^item> \<open>date_now\<close> is \<open>Date.now()\<close>.
  \<^item> \<open>to_double n\<close> is the double that the runtime reads for an integer \<open>n\<close> above \<open>2^53\<close>
    written in decimal digits: a rounded value, or \<open>Infinity\<close> beyond the range of doubles.
\<close>

record runtime =
  intl :: "string \<Rightarrow> (int \<Rightarrow> int) option"
  date_parse :: "string \<Rightarrow> int option"
  date_now :: int
  to_double :: "int \<Rightarrow> jsnum"

subsection \<open>\<open>Date.UTC\<close>\<close>

text \<open>
  Days since 1970-01-01 of a proleptic Gregorian date, month \<open>m\<close> in \<open>1..12\<close>
  (ECMAScript \<open>MakeDay\<close> for a month in range).
\<close>

definition days_from_civil :: "int \<Rightarrow> int \<Rightarrow> int \<Rightarrow> int" where
  "days_from_civil y m d =
     (let y' = (if m \<le> 2 then y - 1 else y);
          era = y' div 400;
          yoe = y' - era * 400;
          doy = (153 * (m + (if m > 2 then -3 else 9)) + 2) div 5 + d - 1;
          doe = yoe * 365 + yoe div 4 - yoe div 100 + doy
      in era * 146097 + doe - 719468)"

text \<open>
  \<open>Date.UTC(year, monthIndex, day, hours, minutes, seconds)\<close> on integers: a year in
  \<open>0..99\<close> means \<open>1900 + year\<close>; a month index outside \<open>0..11\<close> carries into the year; day,
  hours, minutes and seconds outside their ranges carry over by plain addition. The time
  clip at \<open>\<plusminus>8.64e15\<close> is out of reach of the callers here (four-digit years, two-digit
  fields).
\<close>

definition dateUTC :: "int \<Rightarrow> int \<Rightarrow> int \<Rightarrow> int \<Rightarrow> int \<Rightarrow> int \<Rightarrow> int" where
  "dateUTC y mo d h mi se =
     (let yr = (if 0 \<le> y \<and> y \<le> 99 then 1900 + y else y);
          ym = yr + mo div 12;
          mn = mo mod 12;
          day = days_from_civil ym (mn + 1) 1 + d - 1
      in day * 86400000 + h * 3600000 + mi * 60000 + se * 1000)"

subsection \<open>Strings\<close>

definition is_digit :: "char \<Rightarrow> bool" where
  "is_digit c = (48 \<le> (of_char c :: nat) \<and> (of_char c :: nat) \<le> 57)"

text \<open>The integer that a string of decimal digits spells.\<close>

definition digits_val :: "string \<Rightarrow> int" where
  "digits_val s = foldl (\<lambda>acc c. acc * 10 + (int (of_char c) - 48)) 0 s"

text \<open>
  \<open>parseInt(s, 10)\<close> on a string of decimal digits: the integer itself up to \<open>2^53\<close>, the
  double of the runtime above. (\<open>Number\<close> on the two and four digits of a date field is
  \<open>digits_val\<close>.)
\<close>

definition parseInt10 :: "runtime \<Rightarrow> string \<Rightarrow> jsnum" where
  "parseInt10 rt s =
     (let n = digits_val s in if n \<le> 9007199254740992 then Fin n else to_double rt n)"

definition all_digits :: "string \<Rightarrow> bool" where
  "all_digits s = (s \<noteq> [] \<and> list_all is_digit s)"

text \<open>
  White space that \<open>String.prototype.trim\<close> strips, among the code units a \<open>char\<close> can hold
  (0 to 255): space, tab to carriage return, and the no-break space 160. The other
  white space of JavaScript (such as U+FEFF and U+2028) lies above 255 and occurs in no
  string of the model.
\<close>

definition is_ws :: "char \<Rightarrow> bool" where
  "is_ws c = ((of_char c :: nat) = 32 \<or> (9 \<le> (of_char c :: nat) \<and> (of_char c :: nat) \<le> 13) \<or>
              (of_char c :: nat) = 160)"

definition trim :: "string \<Rightarrow> string" where
  "trim s = rev (dropWhile is_ws (rev (dropWhile is_ws s)))"

text \<open>\<open>s.replace(" ", "T")\<close>: a string pattern replaces the first occurrence only.\<close>

fun replace_space_T :: "string \<Rightarrow> string" where
  "replace_space_T [] = []"
| "replace_space_T (c # cs) = (if c = CHR '' '' then CHR ''T'' # cs else c # replace_space_T cs)"

text \<open>\<open>/[zZ]|[+\-]\d{2}:\d{2}$/.test(s)\<close>: a \<open>z\<close> or \<open>Z\<close> anywhere, or a numeric offset at the end.\<close>

definition offset_suffix :: "string \<Rightarrow> bool" where
  "offset_suffix s =
     (length s \<ge> 6 \<and>
      (let t = drop (length s - 6) s in
         (t ! 0 = CHR ''+'' \<or> t ! 0 = CHR ''-'') \<and> is_digit (t ! 1) \<and> is_digit (t ! 2) \<and>
         t ! 3 = CHR '':'' \<and> is_digit (t ! 4) \<and> is_digit (t ! 5)))"

definition has_zone_marker :: "string \<Rightarrow> bool" where
  "has_zone_marker s = (list_ex (\<lambda>c. c = CHR ''z'' \<or> c = CHR ''Z'') s \<or> offset_suffix s)"

subsection \<open>The module\<close>

definition MS_THRESHOLD :: int where
  "MS_THRESHOLD = 1000000000000"

definition MIN_VALID :: int where
  "MIN_VALID = dateUTC 2000 0 1 0 0 0"

text \<open>
  The regular expression
  \<open>^(\d{4})-(\d{2})-(\d{2})(?:[ T](\d{2}):(\d{2})(?::(\d{2}))?)?$\<close>
  matches strings of 10, 16 or 19 characters; the three predicates are its three parts.
\<close>

definition date_part_ok :: "string \<Rightarrow> bool" where
  "date_part_ok s =
     (list_all is_digit (take 4 s) \<and> s ! 4 = CHR ''-'' \<and> list_all is_digit (take 2 (drop 5 s)) \<and>
      s ! 7 = CHR ''-'' \<and> list_all is_digit (take 2 (drop 8 s)))"

definition hm_part_ok :: "string \<Rightarrow> bool" where
  "hm_part_ok s =
     ((s ! 10 = CHR '' '' \<or> s ! 10 = CHR ''T'') \<and> list_all is_digit (take 2 (drop 11 s)) \<and>
      s ! 13 = CHR '':'' \<and> list_all is_digit (take 2 (drop 14 s)))"

definition sec_part_ok :: "string \<Rightarrow> bool" where
  "sec_part_ok s = (s ! 16 = CHR '':'' \<and> list_all is_digit (take 2 (drop 17 s)))"

record naive =
  p_y :: int
  p_mo :: int
  p_d :: int
  p_h :: int
  p_mi :: int
  p_se :: int

definition parseNaiveDateTime :: "string \<Rightarrow> naive option" where
  "parseNaiveDateTime s =
     (let n = length s;
          ymd = \<lparr>p_y = digits_val (take 4 s), p_mo = digits_val (take 2 (drop 5 s)),
                 p_d = digits_val (take 2 (drop 8 s)), p_h = 0, p_mi = 0, p_se = 0\<rparr>
      in if n = 10 \<and> date_part_ok s then Some ymd
         else if n = 16 \<and> date_part_ok s \<and> hm_part_ok s then
           Some (ymd\<lparr>p_h := digits_val (take 2 (drop 11 s)), p_mi := digits_val (take 2 (drop 14 s))\<rparr>)
         else if n = 19 \<and> date_part_ok s \<and> hm_part_ok s \<and> sec_part_ok s then
           Some (ymd\<lparr>p_h := digits_val (take 2 (drop 11 s)), p_mi := digits_val (take 2 (drop 14 s)),
                      p_se := digits_val (take 2 (drop 17 s))\<rparr>)
         else None)"

text \<open>The characters a string matched by the naive pattern is made of.\<close>

definition plain :: "char \<Rightarrow> bool" where
  "plain c = (is_digit c \<or> c = CHR ''-'' \<or> c = CHR '':'' \<or> c = CHR '' '' \<or> c = CHR ''T'')"

text \<open>\<open>Date.UTC(y, mo - 1, d, h, mi, se)\<close> of the parsed fields.\<close>

definition localTs_of :: "naive \<Rightarrow> int" where
  "localTs_of p = dateUTC (p_y p) (p_mo p - 1) (p_d p) (p_h p) (p_mi p) (p_se p)"

definition getTzOffsetMs :: "runtime \<Rightarrow> int \<Rightarrow> string \<Rightarrow> exn + int" where
  "getTzOffsetMs rt utcTs timeZone =
     (case intl rt timeZone of
        None \<Rightarrow> Inl RangeError
      | Some wall \<Rightarrow> (let asUTC = wall utcTs in Inr (asUTC - utcTs)))"

definition zonedNaiveToUtcMs :: "runtime \<Rightarrow> string \<Rightarrow> string \<Rightarrow> exn + int option" where
  "zonedNaiveToUtcMs rt s timeZone =
     (case parseNaiveDateTime s of
        None \<Rightarrow> Inr None
      | Some p \<Rightarrow>
          (let localTs = localTs_of p in
           case getTzOffsetMs rt localTs timeZone of
             Inl e \<Rightarrow> Inl e
           | Inr offset \<Rightarrow>
               (let utcTs = localTs - offset in
                case getTzOffsetMs rt utcTs timeZone of
                  Inl e \<Rightarrow> Inl e
                | Inr offset2 \<Rightarrow>
                    if offset2 \<noteq> offset then Inr (Some (localTs - offset2))
                    else Inr (Some utcTs))))"

definition js_lt :: "jsnum \<Rightarrow> int \<Rightarrow> bool" where
  "js_lt x t = (case x of Fin a \<Rightarrow> a < t | NaN \<Rightarrow> False | PosInf \<Rightarrow> False | NegInf \<Rightarrow> True)"

definition js_times :: "jsnum \<Rightarrow> int \<Rightarrow> jsnum" where
  "js_times x k = (case x of Fin a \<Rightarrow> Fin (a * k) | NaN \<Rightarrow> NaN | PosInf \<Rightarrow> PosInf | NegInf \<Rightarrow> NegInf)"

text \<open>\<open>Number.isFinite(ms) && ms >= MIN_VALID ? ms : null\<close>\<close>

definition finite_from_floor :: "jsnum \<Rightarrow> jsnum option" where
  "finite_from_floor ms =
     (case ms of Fin m \<Rightarrow> (if m \<ge> MIN_VALID then Some (Fin m) else None) | _ \<Rightarrow> None)"

text \<open>\<open>x >= t\<close> for a number \<open>x\<close> and a finite \<open>t\<close>.\<close>

definition js_at_least :: "jsnum \<Rightarrow> int \<Rightarrow> bool" where
  "js_at_least x t = (case x of Fin a \<Rightarrow> a \<ge> t | NaN \<Rightarrow> False | PosInf \<Rightarrow> True | NegInf \<Rightarrow> False)"

text \<open>
  The result is \<open>number | null\<close>. Every number it returns is finite, but for a string of
  digits beyond the range of doubles, which comes back as \<open>Infinity\<close>.
\<close>

definition toUtcMs :: "runtime \<Rightarrow> tinput \<Rightarrow> string \<Rightarrow> jsnum option" where
  "toUtcMs rt input siteTz =
     (case input of
        INull \<Rightarrow> None
      | INum n \<Rightarrow>
          (let ms = (if js_lt n MS_THRESHOLD then js_times n 1000 else n)
           in finite_from_floor ms)
      | IStr str \<Rightarrow>
          (let s = trim str in
           if s = [] then None
           else if all_digits s then
             (let sec = parseInt10 rt s;
                  ms = (if js_lt sec (MS_THRESHOLD div 1000) then js_times sec 1000 else sec)
              in if js_at_least ms MIN_VALID then Some ms else None)
           else if has_zone_marker s then
             (case date_parse rt s of
                None \<Rightarrow> None
              | Some ms \<Rightarrow> if ms \<ge> MIN_VALID then Some (Fin ms) else None)
           else
             (case zonedNaiveToUtcMs rt (replace_space_T s) siteTz of
                Inl e \<Rightarrow> None
              | Inr None \<Rightarrow> None
              | Inr (Some ms) \<Rightarrow> if ms \<ge> MIN_VALID then Some (Fin ms) else None)))"

text \<open>
  Zones for stating properties of the two-pass resolution: the offset is \<open>a\<close> before the
  instant \<open>T\<close> and \<open>b\<close> from \<open>T\<close> on. With \<open>a < b\<close> (clocks go forward) the wall-clock
  readings from \<open>T + a\<close> up to \<open>T + b\<close> are skipped: no instant shows them.
\<close>

definition shift_zone :: "int \<Rightarrow> int \<Rightarrow> int \<Rightarrow> int \<Rightarrow> int" where
  "shift_zone T a b u = u + (if u < T then a else b)"

definition in_gap :: "int \<Rightarrow> int \<Rightarrow> int \<Rightarrow> int \<Rightarrow> bool" where
  "in_gap T a b L = (T + a \<le> L \<and> L < T + b)"

text \<open>
  US Eastern time around 10 March 2024: UTC-5 until 07:00 UTC, UTC-4 afterwards
  (02:00 local jumps to 03:00).
\<close>

definition eastern_2024 :: "int \<Rightarrow> int" where
  "eastern_2024 = shift_zone (dateUTC 2024 2 10 7 0 0) (- 18000000) (- 14400000)"

definition eastern_rt :: runtime where
  "eastern_rt = \<lparr>intl = (\<lambda>tz. if tz = ''America/New_York'' then Some eastern_2024 else None),
                 date_parse = (\<lambda>s. None), date_now = 0, to_double = Fin\<rparr>"

section \<open>Paged fetching\<close>

text \<open>
  What one page request comes to: the \<open>fetch\<close> rejects (timeout after 4 s, network error),
  the response is not \<open>ok\<close>, its body is not JSON, or it is a batch of records.
\<close>

datatype 'r page_result = Timeout | NotOk nat | BadJson | Batch "'r list"

definition perPage :: nat where
  "perPage = 100"

text \<open>
  The \<open>while (true)\<close> loop of \<open>getBookings\<close> (server/routes/woocommerce.ts, lines 268 to 321);
  \<open>up page\<close> is the outcome of requesting \<open>page\<close>.
\<close>

function getBookings_pages :: "(nat \<Rightarrow> 'r page_result) \<Rightarrow> nat \<Rightarrow> 'r list \<Rightarrow> 'r list" where
  "getBookings_pages up page all =
     (case up page of
        Timeout \<Rightarrow> all
      | NotOk st \<Rightarrow> all
      | BadJson \<Rightarrow> all
      | Batch batch \<Rightarrow>
          (if length batch < perPage then all @ batch
           else if page + 1 > 5 then all @ batch
           else getBookings_pages up (page + 1) (all @ batch)))"
  by pat_completeness auto
termination
  by (relation "measure (\<lambda>(up, page, all). 6 - page)") auto

declare getBookings_pages.simps [simp del]

text \<open>
  The \<open>while (page <= 5)\<close> loop of \<open>handleAvailabilityRange\<close> (lines 670 to 683): \<open>wooFetch\<close>
  throws on a timeout, on a response that is not \<open>ok\<close> and on a body that is not JSON, and
  the loop breaks on any throw.
\<close>

function availability_pages :: "(nat \<Rightarrow> 'r page_result) \<Rightarrow> nat \<Rightarrow> 'r list \<Rightarrow> 'r list" where
  "availability_pages up page all =
     (if page \<le> 5 then
        (case up page of
           Batch batch \<Rightarrow>
             (if length batch < 100 then all @ batch
              else availability_pages up (page + 1) (all @ batch))
         | _ \<Rightarrow> all)
      else all)"
  by pat_completeness auto
termination
  by (relation "measure (\<lambda>(up, page, all). 6 - page)") auto

declare availability_pages.simps [simp del]

text \<open>For stating what the loops return: the records of a page, and where paging ends.\<close>

definition batch_of :: "'r page_result \<Rightarrow> 'r list" where
  "batch_of r = (case r of Batch b \<Rightarrow> b | _ \<Rightarrow> [])"

definition is_failure :: "'r page_result \<Rightarrow> bool" where
  "is_failure r = (case r of Batch b \<Rightarrow> False | _ \<Rightarrow> True)"

text \<open>A page ends the paging when it fails or holds fewer than 100 records.\<close>

definition ends_paging :: "'r page_result \<Rightarrow> bool" where
  "ends_paging r = (is_failure r \<or> length (batch_of r) < 100)"

text \<open>The last page requested: the first of pages 1 to 4 that ends the paging, else page 5.\<close>

definition last_page :: "(nat \<Rightarrow> 'r page_result) \<Rightarrow> nat" where
  "last_page up = (case find (\<lambda>p. ends_paging (up p)) [1, 2, 3, 4] of Some p \<Rightarrow> p | None \<Rightarrow> 5)"

section \<open>The bookings endpoint: \<open>getBookings\<close> (server/routes/woocommerce.ts)\<close>

subsection \<open>Configuration\<close>

text \<open>The three environment variables; \<open>None\<close> is \<open>undefined\<close>.\<close>

record env =
  WOOCOMMERCE_STORE_URL :: "string option"
  WOOCOMMERCE_CONSUMER_KEY :: "string option"
  WOOCOMMERCE_CONSUMER_SECRET :: "string option"

record WooCommerceConfig =
  url :: string
  consumerKey :: string
  consumerSecret :: string

text \<open>JavaScript truthiness of \<open>string | undefined\<close>: the empty string is falsy.\<close>

definition truthy :: "string option \<Rightarrow> bool" where
  "truthy v = (case v of None \<Rightarrow> False | Some s \<Rightarrow> s \<noteq> [])"

definition or_empty :: "string option \<Rightarrow> string" where
  "or_empty v = (case v of None \<Rightarrow> [] | Some s \<Rightarrow> s)"

text \<open>
  \<open>getWooConfig\<close> of server/routes/woocommerce.ts and of the module of
  \<open>handleAvailabilityRange\<close>: both return \<open>null\<close> when a variable is missing or empty.
\<close>

definition getWooConfig :: "env \<Rightarrow> WooCommerceConfig option" where
  "getWooConfig e =
     (if \<not> truthy (WOOCOMMERCE_STORE_URL e) \<or> \<not> truthy (WOOCOMMERCE_CONSUMER_KEY e) \<or>
         \<not> truthy (WOOCOMMERCE_CONSUMER_SECRET e)
      then None
      else Some \<lparr>url = or_empty (WOOCOMMERCE_STORE_URL e),
                 consumerKey = or_empty (WOOCOMMERCE_CONSUMER_KEY e),
                 consumerSecret = or_empty (WOOCOMMERCE_CONSUMER_SECRET e)\<rparr>)"

subsection \<open>Upstream booking records\<close>

text \<open>\<open>person_counts\<close>: absent, a number, an array of numbers or an object of numbers.\<close>

datatype person_counts = PcAbsent | PcNum int | PcArr "int list" | PcObj "(string \<times> int) list"

text \<open>
  The \<open>product_id\<close> of a record as the JSON holds it: no such field (\<open>undefined\<close>),
  \<open>null\<close>, or a number.
\<close>

datatype json_id = IdMissing | IdNull | IdNum int

text \<open>
  A record of the upstream bookings API as the handlers read it. The time fields hold
  whatever JSON the upstream sent (a number, a string or nothing).
\<close>

record booking =
  b_id :: int
  product_id :: json_id
  order_id :: "int option"
  b_start :: tinput
  b_end :: tinput
  booking_start :: tinput
  u_booking_start :: tinput
  booking_end :: tinput
  u_booking_end :: tinput
  b_person_counts :: person_counts
  b_status :: string
  product_name :: "string option"

subsection \<open>\<open>parseBookingDateToMs\<close>\<close>

text \<open>\<open>/\dT\d/.test(val)\<close>\<close>

fun has_dTd :: "string \<Rightarrow> bool" where
  "has_dTd (a # b # c # cs) = ((is_digit a \<and> b = CHR ''T'' \<and> is_digit c) \<or> has_dTd (b # c # cs))"
| "has_dTd cs = False"

text \<open>\<open>/Z|[+-]\d{2}:?\d{2}$/.test(val)\<close>: a \<open>Z\<close> anywhere, or an offset with or without colon at the end.\<close>

definition offset_suffix_nocolon :: "string \<Rightarrow> bool" where
  "offset_suffix_nocolon s =
     (length s \<ge> 5 \<and>
      (let t = drop (length s - 5) s in
         (t ! 0 = CHR ''+'' \<or> t ! 0 = CHR ''-'') \<and> is_digit (t ! 1) \<and> is_digit (t ! 2) \<and>
         is_digit (t ! 3) \<and> is_digit (t ! 4)))"

definition has_Z_or_offset :: "string \<Rightarrow> bool" where
  "has_Z_or_offset s = (list_ex (\<lambda>c. c = CHR ''Z'') s \<or> offset_suffix s \<or> offset_suffix_nocolon s)"

text \<open>\<open>/^(\d{4})-(\d{2})-(\d{2}) (\d{2}):(\d{2}):(\d{2})$/\<close>\<close>

definition wc_format :: "string \<Rightarrow> bool" where
  "wc_format s =
     (length s = 19 \<and> date_part_ok s \<and> s ! 10 = CHR '' '' \<and> list_all is_digit (take 2 (drop 11 s)) \<and>
      s ! 13 = CHR '':'' \<and> list_all is_digit (take 2 (drop 14 s)) \<and> sec_part_ok s)"

definition parse_or_now :: "runtime \<Rightarrow> string \<Rightarrow> int" where
  "parse_or_now rt s = (case date_parse rt s of None \<Rightarrow> date_now rt | Some t \<Rightarrow> t)"

definition parseBookingDateToMs :: "runtime \<Rightarrow> tinput \<Rightarrow> int" where
  "parseBookingDateToMs rt val =
     (case val of
        INum (Fin v) \<Rightarrow> (if v > 1000000000000 then v else v * 1000)
      | IStr s \<Rightarrow>
          (if has_dTd s \<and> has_Z_or_offset s then parse_or_now rt s
           else if wc_format s then
             dateUTC (digits_val (take 4 s)) (digits_val (take 2 (drop 5 s)) - 1)
               (digits_val (take 2 (drop 8 s))) (digits_val (take 2 (drop 11 s)))
               (digits_val (take 2 (drop 14 s))) (digits_val (take 2 (drop 17 s)))
           else parse_or_now rt s)
      | _ \<Rightarrow> date_now rt)"

subsection \<open>The defensive date filter\<close>

record query =
  start_date :: "string option"
  end_date :: "string option"
  q_status :: "string option"

text \<open>\<open>start_date ? Date.parse(`${start_date}T00:00:00Z`) : -Infinity\<close>\<close>

definition minMs :: "runtime \<Rightarrow> query \<Rightarrow> jsnum" where
  "minMs rt q =
     (if truthy (start_date q) then
        (case date_parse rt (or_empty (start_date q) @ ''T00:00:00Z'') of None \<Rightarrow> NaN | Some t \<Rightarrow> Fin t)
      else NegInf)"

text \<open>\<open>end_date ? Date.parse(`${end_date}T23:59:59Z`) : Infinity\<close>\<close>

definition maxMs :: "runtime \<Rightarrow> query \<Rightarrow> jsnum" where
  "maxMs rt q =
     (if truthy (end_date q) then
        (case date_parse rt (or_empty (end_date q) @ ''T23:59:59Z'') of None \<Rightarrow> NaN | Some t \<Rightarrow> Fin t)
      else PosInf)"

text \<open>\<open>s >= x\<close> and \<open>s <= x\<close> for a finite \<open>s\<close>: false against \<open>NaN\<close>.\<close>

definition js_ge :: "int \<Rightarrow> jsnum \<Rightarrow> bool" where
  "js_ge s x = (case x of Fin m \<Rightarrow> s \<ge> m | NaN \<Rightarrow> False | PosInf \<Rightarrow> False | NegInf \<Rightarrow> True)"

definition js_le :: "int \<Rightarrow> jsnum \<Rightarrow> bool" where
  "js_le s x = (case x of Fin m \<Rightarrow> s \<le> m | NaN \<Rightarrow> False | PosInf \<Rightarrow> True | NegInf \<Rightarrow> False)"

definition date_filter :: "runtime \<Rightarrow> query \<Rightarrow> booking list \<Rightarrow> booking list" where
  "date_filter rt q bookings =
     (if truthy (start_date q) \<or> truthy (end_date q) then
        filter (\<lambda>b. let s = parseBookingDateToMs rt (b_start b)
                    in js_ge s (minMs rt q) \<and> js_le s (maxMs rt q)) bookings
      else bookings)"

subsection \<open>Conversion to calendar events\<close>

text \<open>Decimal rendering of a number in a template string.\<close>

function show_nat :: "nat \<Rightarrow> string" where
  "show_nat n = (if n < 10 then [char_of (48 + n)] else show_nat (n div 10) @ [char_of (48 + n mod 10)])"
  by pat_completeness auto
termination
  by (relation "measure id") auto

declare show_nat.simps [simp del]

definition show_int :: "int \<Rightarrow> string" where
  "show_int i = (if i < 0 then CHR ''-'' # show_nat (nat (- i)) else show_nat (nat i))"

text \<open>
  The fields of \<open>BookingCalendarEvent\<close> that the aggregation and the filters of the client
  read, after \<open>normalizeEvents\<close>.
\<close>

record calendar_event =
  ev_id :: string
  title :: string
  ev_start :: int
  ev_end :: int
  participants :: int
  maxParticipants :: int
  ev_status :: string
  bookingId :: int
  orderId :: "int option"
  productId :: "int option"

text \<open>The participant count of \<open>getBookings\<close> (lines 426 to 439).\<close>

definition participants_of :: "person_counts \<Rightarrow> int" where
  "participants_of pc =
     max 1 (case pc of
              PcArr ns \<Rightarrow> sum_list ns
            | PcNum n \<Rightarrow> n
            | PcObj kvs \<Rightarrow> sum_list (map snd kvs)
            | PcAbsent \<Rightarrow> 1)"

text \<open>\<open>a ?? b\<close> on the raw time fields.\<close>

definition nullish_or :: "tinput \<Rightarrow> tinput \<Rightarrow> tinput" where
  "nullish_or a b = (case a of INull \<Rightarrow> b | _ \<Rightarrow> a)"

text \<open>\<open>x || 0\<close> on a number that may be missing.\<close>

definition or_zero :: "int option \<Rightarrow> int" where
  "or_zero v = (case v of None \<Rightarrow> 0 | Some n \<Rightarrow> n)"

text \<open>\<open>x || y\<close> on \<open>number | null\<close>: \<open>null\<close>, \<open>0\<close> and \<open>NaN\<close> are falsy.\<close>

definition ms_or :: "jsnum option \<Rightarrow> jsnum \<Rightarrow> jsnum" where
  "ms_or v z =
     (case v of
        None \<Rightarrow> z
      | Some (Fin a) \<Rightarrow> (if a = 0 then z else Fin a)
      | Some NaN \<Rightarrow> z
      | Some x \<Rightarrow> x)"

text \<open>
  \<open>new Date(x)\<close> by its time value: an \<open>Invalid Date\<close> (\<open>None\<close>) when \<open>x\<close> is not finite
  or beyond 8.64e15 milliseconds from the epoch.
\<close>

definition new_Date :: "jsnum \<Rightarrow> int option" where
  "new_Date x =
     (case x of Fin t \<Rightarrow> (if \<bar>t\<bar> \<le> 8640000000000000 then Some t else None) | _ \<Rightarrow> None)"

text \<open>
  An element of \<open>data\<close> in the answer of \<open>getBookings\<close> (lines 453 to 487), with the fields
  that the properties below read.
\<close>

record server_event =
  se_id :: string
  se_title :: string
  se_start :: "int option"
  se_end :: "int option"
  se_participants :: int
  se_maxParticipants :: int
  se_status :: string
  se_bookingId :: int
  se_orderId :: "int option"
  se_productId :: json_id

definition convert_booking :: "runtime \<Rightarrow> (int \<rightharpoonup> string) \<Rightarrow> string option \<Rightarrow> booking \<Rightarrow> server_event" where
  "convert_booking rt productTitleMap siteTz b =
     (let found = (case product_id b of IdNum pid \<Rightarrow> productTitleMap pid | _ \<Rightarrow> None);
          productName =
            (if truthy (product_name b) then product_name b
             else if truthy found then found else None);
          rawStart = nullish_or (b_start b) (nullish_or (booking_start b) (u_booking_start b));
          rawEnd = nullish_or (b_end b) (nullish_or (booking_end b) (u_booking_end b));
          tz = (if truthy siteTz then or_empty siteTz else ''UTC'');
          startMs = toUtcMs rt rawStart tz;
          endMs = toUtcMs rt rawEnd tz
      in \<lparr>se_id = ''wc-'' @ show_int (b_id b),
          se_title = (if truthy productName then or_empty productName else ''Booking #'' @ show_int (b_id b)),
          se_start = new_Date (ms_or startMs (Fin 0)),
          se_end = new_Date (ms_or endMs (ms_or startMs (Fin 0))),
          se_participants = participants_of (b_person_counts b),
          se_maxParticipants = 15,
          se_status = b_status b,
          se_bookingId = b_id b,
          se_orderId = order_id b,
          se_productId = product_id b\<rparr>)"

subsection \<open>The handler\<close>

text \<open>
  The JSON body of every answer of \<open>getBookings\<close>; all of them are sent with
  \<open>res.json\<close>, status 200. A flag the body leaves out is \<open>False\<close>. The answer of the
  outer \<open>catch\<close> (\<open>demo_mode: true\<close>) has no branch below: nothing that the model
  evaluates throws.
\<close>

record bookings_response =
  r_status :: nat
  r_success :: bool
  r_data :: "server_event list"
  r_total :: nat
  r_message :: "string option"
  r_bookings_available :: bool
  r_credentials_missing :: bool
  r_cached :: bool
  r_demo_mode :: bool

definition BOOKINGS_TTL_MS :: int where
  "BOOKINGS_TTL_MS = 180 * 1000"

definition bookings_cacheKey :: "query \<Rightarrow> string" where
  "bookings_cacheKey q =
     or_empty (start_date q) @ ''|'' @ or_empty (end_date q) @ ''|'' @ or_empty (q_status q)"

text \<open>
  \<open>getBookings\<close> from its inputs: the environment, the query, the bookings cache, the
  outcome \<open>up\<close> of each page request for this query, the product titles the handler
  resolves from the product cache and the products endpoint (\<open>productTitleMap\<close>, resolution
  not modelled), and the site time zone. It returns the body and the cache afterwards.
\<close>

definition getBookings ::
  "runtime \<Rightarrow> env \<Rightarrow> query \<Rightarrow> (string \<rightharpoonup> int \<times> server_event list) \<Rightarrow>
   (nat \<Rightarrow> booking page_result) \<Rightarrow> (int \<rightharpoonup> string) \<Rightarrow> string option \<Rightarrow>
   bookings_response \<times> (string \<rightharpoonup> int \<times> server_event list)" where
  "getBookings rt e q bookingsCache up productTitleMap siteTz =
     (case getWooConfig e of
        None \<Rightarrow>
          (\<lparr>r_status = 200, r_success = True, r_data = [], r_total = 0,
            r_message = Some ''WooCommerce credentials not configured. Please set environment variables to connect to your store.'',
            r_bookings_available = False, r_credentials_missing = True,
            r_cached = False, r_demo_mode = False\<rparr>, bookingsCache)
      | Some config \<Rightarrow>
          (let cacheKey = bookings_cacheKey q;
               hit = (case bookingsCache cacheKey of
                        None \<Rightarrow> None
                      | Some (ts, cdata) \<Rightarrow> if date_now rt - ts < BOOKINGS_TTL_MS then Some cdata else None)
           in case hit of
                Some cdata \<Rightarrow>
                  (\<lparr>r_status = 200, r_success = True, r_data = cdata, r_total = length cdata,
                    r_message = None, r_bookings_available = True, r_credentials_missing = False,
                    r_cached = True, r_demo_mode = False\<rparr>, bookingsCache)
              | None \<Rightarrow>
                  (let all = getBookings_pages up 1 [];
                       bookings = date_filter rt q all;
                       bookingsAvailable = (length bookings > 0)
                   in if \<not> bookingsAvailable then
                        (\<lparr>r_status = 200, r_success = True, r_data = [], r_total = 0,
                          r_message = Some ''WooCommerce Bookings plugin not detected. Using demo mode.'',
                          r_bookings_available = False, r_credentials_missing = False,
                          r_cached = False, r_demo_mode = False\<rparr>, bookingsCache)
                      else
                        (let events = map (convert_booking rt productTitleMap siteTz) bookings
                         in (\<lparr>r_status = 200, r_success = True, r_data = events,
                              r_total = length bookings, r_message = None,
                              r_bookings_available = True, r_credentials_missing = False,
                              r_cached = False, r_demo_mode = False\<rparr>,
                             bookingsCache(cacheKey \<mapsto> (date_now rt, events)))))))"

subsection \<open>A sequence of requests\<close>




section \<open>Availability over a date range: \<open>handleAvailabilityRange\<close>\<close>

subsection \<open>Numbers in the grouping loop\<close>

text \<open>A falsy number is \<open>0\<close> or \<open>NaN\<close>; \<open>x || y\<close> and \<open>Math.max\<close> on numbers.\<close>

definition js_truthy :: "jsnum \<Rightarrow> bool" where
  "js_truthy x = (case x of Fin a \<Rightarrow> a \<noteq> 0 | NaN \<Rightarrow> False | PosInf \<Rightarrow> True | NegInf \<Rightarrow> True)"

definition js_or :: "jsnum \<Rightarrow> jsnum \<Rightarrow> jsnum" where
  "js_or x z = (if js_truthy x then x else z)"

fun js_max :: "jsnum \<Rightarrow> jsnum \<Rightarrow> jsnum" where
  "js_max NaN z = NaN"
| "js_max x NaN = NaN"
| "js_max PosInf z = PosInf"
| "js_max x PosInf = PosInf"
| "js_max NegInf z = z"
| "js_max x NegInf = x"
| "js_max (Fin a) (Fin b) = Fin (max a b)"

text \<open>
  \<open>typeof v === "number" ? (v > 1e12 ? v : v * 1000) : Date.parse(v)\<close>
  (lines 769 to 780; \<open>Date.parse\<close> of \<open>null\<close> or \<open>undefined\<close> is \<open>NaN\<close>).
\<close>

definition slot_ms :: "runtime \<Rightarrow> tinput \<Rightarrow> jsnum" where
  "slot_ms rt v =
     (case v of
        INum (Fin a) \<Rightarrow> Fin (if a > 1000000000000 then a else a * 1000)
      | INum x \<Rightarrow> x
      | IStr s \<Rightarrow> (case date_parse rt s of None \<Rightarrow> NaN | Some t \<Rightarrow> Fin t)
      | INull \<Rightarrow> NaN)"

text \<open>\<open>Number(b.product_id)\<close>: \<open>NaN\<close> for a record without the field, \<open>0\<close> for \<open>null\<close>.\<close>

definition pid_num :: "json_id \<Rightarrow> jsnum" where
  "pid_num v = (case v of IdMissing \<Rightarrow> NaN | IdNull \<Rightarrow> Fin 0 | IdNum i \<Rightarrow> Fin i)"

definition parseCounts :: "person_counts \<Rightarrow> int" where
  "parseCounts pc =
     (case pc of
        PcAbsent \<Rightarrow> 1
      | PcNum n \<Rightarrow> (if n = 0 then 1 else max 1 n)
      | PcArr ns \<Rightarrow> max 1 (sum_list ns)
      | PcObj kvs \<Rightarrow> max 1 (sum_list (map snd kvs)))"

subsection \<open>Grouping\<close>

text \<open>
  A value of the \<open>Map\<close> of the loop. Its key, the string \<open>`${pid}|${start}`\<close>, is the pair
  of the two numbers: the rendering of a number holds no \<open>|\<close>, and \<open>NaN\<close> renders as
  \<open>NaN\<close>, equal to itself. An association list keeps the insertion order of the \<open>Map\<close>;
  \<open>AList.update\<close> replaces the value of a key in place and appends a new key, as
  \<open>Map.set\<close> does.
\<close>

record slot_group =
  g_product_id :: jsnum
  g_start :: jsnum
  g_end :: jsnum
  g_used :: int

type_synonym group_map = "((jsnum \<times> jsnum) \<times> slot_group) list"

text \<open>\<open>allowedIds.size && !allowedIds.has(Number(b.product_id))\<close>\<close>

definition skipped :: "int list \<Rightarrow> booking \<Rightarrow> bool" where
  "skipped allowedIds b =
     (allowedIds \<noteq> [] \<and> pid_num (product_id b) \<notin> set (map Fin allowedIds))"

text \<open>One turn of \<open>for (const b of all)\<close> (lines 767 to 796).\<close>

definition group_step :: "runtime \<Rightarrow> int list \<Rightarrow> group_map \<Rightarrow> booking \<Rightarrow> group_map" where
  "group_step rt allowedIds m b =
     (if skipped allowedIds b then m
      else
        (let startMs = slot_ms rt (b_start b);
             endMs = slot_ms rt (b_end b);
             pid = pid_num (product_id b);
             k = (pid, startMs);
             used = parseCounts (b_person_counts b)
         in case map_of m k of
              Some prev \<Rightarrow>
                AList.update k (prev\<lparr>g_used := g_used prev + used,
                                      g_end := js_max (g_end prev) (js_or endMs (g_end prev))\<rparr>) m
            | None \<Rightarrow>
                AList.update k \<lparr>g_product_id = pid, g_start = startMs,
                                g_end = js_or endMs startMs, g_used = used\<rparr> m))"

definition group_bookings :: "runtime \<Rightarrow> int list \<Rightarrow> booking list \<Rightarrow> group_map" where
  "group_bookings rt allowedIds all = foldl (group_step rt allowedIds) [] all"

subsection \<open>The answer\<close>

text \<open>A row of the answer; \<open>row_start\<close> and \<open>row_end\<close> are the instants of the ISO strings.\<close>

record avail_row =
  row_product_id :: jsnum
  row_product_name :: string
  row_start :: int
  row_end :: int
  row_used :: int
  row_total :: "int option"

text \<open>\<open>new Date(v).toISOString()\<close> throws a \<open>RangeError\<close> on an invalid date.\<close>

definition toISOString :: "jsnum \<Rightarrow> exn + int" where
  "toISOString v =
     (case v of
        Fin t \<Rightarrow> (if \<bar>t\<bar> \<le> 8640000000000000 then Inr t else Inl RangeError)
      | _ \<Rightarrow> Inl RangeError)"

definition show_jsnum :: "jsnum \<Rightarrow> string" where
  "show_jsnum x =
     (case x of Fin i \<Rightarrow> show_int i | NaN \<Rightarrow> ''NaN'' | PosInf \<Rightarrow> ''Infinity'' | NegInf \<Rightarrow> ''-Infinity'')"

text \<open>\<open>nameMap.get(v.product_id) || `Product #${v.product_id}`\<close>\<close>

definition row_name :: "(int \<rightharpoonup> string) \<Rightarrow> jsnum \<Rightarrow> string" where
  "row_name nameMap pid =
     (let found = (case pid of Fin i \<Rightarrow> nameMap i | _ \<Rightarrow> None)
      in if truthy found then or_empty found else ''Product #'' @ show_jsnum pid)"

definition row_of :: "(int \<rightharpoonup> string) \<Rightarrow> (int \<rightharpoonup> int) \<Rightarrow> slot_group \<Rightarrow> exn + avail_row" where
  "row_of nameMap totalsMap v =
     (case toISOString (g_start v) of
        Inl e \<Rightarrow> Inl e
      | Inr st \<Rightarrow>
          (case toISOString (g_end v) of
             Inl e \<Rightarrow> Inl e
           | Inr en \<Rightarrow>
               Inr \<lparr>row_product_id = g_product_id v,
                    row_product_name = row_name nameMap (g_product_id v),
                    row_start = st, row_end = en, row_used = g_used v,
                    row_total = (case g_product_id v of Fin i \<Rightarrow> totalsMap i | _ \<Rightarrow> None)\<rparr>))"

text \<open>\<open>for (const v of map.values()) out.push(...)\<close>: the first throw ends the loop.\<close>

fun rows_of :: "(int \<rightharpoonup> string) \<Rightarrow> (int \<rightharpoonup> int) \<Rightarrow> slot_group list \<Rightarrow> exn + avail_row list" where
  "rows_of nameMap totalsMap [] = Inr []"
| "rows_of nameMap totalsMap (v # vs) =
     (case row_of nameMap totalsMap v of
        Inl e \<Rightarrow> Inl e
      | Inr r \<Rightarrow> (case rows_of nameMap totalsMap vs of Inl e \<Rightarrow> Inl e | Inr rs \<Rightarrow> Inr (r # rs)))"

record avail_query =
  min_date :: "string option"
  max_date :: "string option"
  product_ids :: "int list"

record avail_response =
  a_status :: nat
  a_success :: bool
  a_data :: "avail_row list"
  a_total :: nat
  a_cached :: bool
  a_error :: "string option"

definition AVAIL_TTL :: int where
  "AVAIL_TTL = 10 * 60 * 1000"

text \<open>\<open>Array.from(allowedIds).sort((a, b) => a - b).join(",")\<close>\<close>

fun join_ids :: "int list \<Rightarrow> string" where
  "join_ids [] = []"
| "join_ids [i] = show_int i"
| "join_ids (i # is) = show_int i @ '','' @ join_ids is"

definition avail_cacheKey :: "avail_query \<Rightarrow> int list \<Rightarrow> string" where
  "avail_cacheKey q allowedIds =
     or_empty (min_date q) @ ''|'' @ or_empty (max_date q) @ ''|'' @ join_ids (sort allowedIds)"

text \<open>
  \<open>handleAvailabilityRange\<close> from its inputs. \<open>product_ids q\<close> holds the finite values
  that \<open>parseInt\<close> finds in the comma-separated parameter; \<open>nameMap\<close> and \<open>totalsMap\<close>
  are what the product and capacity requests resolve to (not modelled). A throw inside the
  handler is caught by its own \<open>try\<close> and answered with status 500.
\<close>

definition handleAvailabilityRange ::
  "runtime \<Rightarrow> env \<Rightarrow> avail_query \<Rightarrow> (string \<rightharpoonup> int \<times> avail_row list) \<Rightarrow>
   (nat \<Rightarrow> booking page_result) \<Rightarrow> (int \<rightharpoonup> string) \<Rightarrow> (int \<rightharpoonup> int) \<Rightarrow>
   avail_response \<times> (string \<rightharpoonup> int \<times> avail_row list)" where
  "handleAvailabilityRange rt e q cache up nameMap totalsMap =
     (let allowedIds = remdups (filter (\<lambda>n. n > 0) (product_ids q)) in
      case getWooConfig e of
        None \<Rightarrow>
          (\<lparr>a_status = 400, a_success = False, a_data = [], a_total = 0, a_cached = False,
            a_error = Some ''WooCommerce credentials not configured''\<rparr>, cache)
      | Some config \<Rightarrow>
          (let cacheKey = avail_cacheKey q allowedIds;
               hit = (case cache cacheKey of
                        None \<Rightarrow> None
                      | Some (ts, cdata) \<Rightarrow> if date_now rt - ts < AVAIL_TTL then Some cdata else None)
           in case hit of
                Some cdata \<Rightarrow>
                  (\<lparr>a_status = 200, a_success = True, a_data = cdata, a_total = length cdata,
                    a_cached = True, a_error = None\<rparr>, cache)
              | None \<Rightarrow>
                  (let all = availability_pages up 1 [];
                       groups = group_bookings rt allowedIds all
                   in case rows_of nameMap totalsMap (map snd groups) of
                        Inl ex \<Rightarrow>
                          (\<lparr>a_status = 500, a_success = False, a_data = [], a_total = 0,
                            a_cached = False, a_error = Some ''Invalid time value''\<rparr>, cache)
                      | Inr out \<Rightarrow>
                          (\<lparr>a_status = 200, a_success = True, a_data = out, a_total = length out,
                            a_cached = False, a_error = None\<rparr>,
                           cache(cacheKey \<mapsto> (date_now rt, out))))))"

section \<open>The client service: availability blocks\<close>

subsection \<open>\<open>buildFallbackFromBookings\<close>\<close>

text \<open>
  The events are those of \<open>getCalendarBookings\<close>; their \<open>start\<close> and \<open>end\<close> are valid
  dates, given by their epoch milliseconds (an \<open>Invalid Date\<close> is not part of the model).
\<close>

record fallback_group =
  c_productId :: int
  c_start :: int
  c_end :: int
  c_used :: int

record AvailabilitySlot =
  s_productId :: int
  s_productName :: string
  s_start :: int
  s_end :: int
  s_used :: int
  s_total :: "int option"

text \<open>One turn of \<open>for (const ev of events)\<close> (lines 866 to 884).\<close>

definition fallback_step ::
  "((int \<times> int) \<times> fallback_group) list \<Rightarrow> calendar_event \<Rightarrow> ((int \<times> int) \<times> fallback_group) list" where
  "fallback_step grouped ev =
     (let pid = or_zero (productId ev);
          start = ev_start ev;
          en = (if ev_end ev \<noteq> 0 then ev_end ev else start);
          k = (pid, start);
          n = (if participants ev \<noteq> 0 then participants ev else 1)
      in case map_of grouped k of
           Some prev \<Rightarrow>
             AList.update k (prev\<lparr>c_used := c_used prev + n, c_end := max (c_end prev) en\<rparr>) grouped
         | None \<Rightarrow>
             AList.update k \<lparr>c_productId = pid, c_start = start, c_end = en, c_used = n\<rparr> grouped)"

definition fallback_groups :: "calendar_event list \<Rightarrow> ((int \<times> int) \<times> fallback_group) list" where
  "fallback_groups events = foldl fallback_step [] events"

text \<open>
  \<open>nameMap\<close> is what the \<open>getProductById\<close> requests resolve to; the loop asks for the
  non-zero product ids only.
\<close>

definition slot_of :: "(int \<rightharpoonup> string) \<Rightarrow> fallback_group \<Rightarrow> AvailabilitySlot" where
  "slot_of nameMap g =
     (let found = (if c_productId g \<noteq> 0 then nameMap (c_productId g) else None)
      in \<lparr>s_productId = c_productId g,
          s_productName = (if truthy found then or_empty found
                           else ''Product #'' @ show_int (c_productId g)),
          s_start = c_start g, s_end = c_end g, s_used = c_used g, s_total = None\<rparr>)"

definition fallback_slots :: "(int \<rightharpoonup> string) \<Rightarrow> calendar_event list \<Rightarrow> AvailabilitySlot list" where
  "fallback_slots nameMap events = map (\<lambda>kg. slot_of nameMap (snd kg)) (fallback_groups events)"

text \<open>
  The comparator \<open>a.start.getTime() - b.start.getTime() || a.productName.localeCompare(b.productName)\<close>
  orders slots by start, then by name. \<open>coll\<close> maps a name to its collation key:
  \<open>localeCompare\<close> compares the keys. \<open>Array.prototype.sort\<close> is stable, as \<open>sort_key\<close> is.
\<close>

definition slot_key :: "(string \<Rightarrow> 'c::linorder) \<Rightarrow> AvailabilitySlot \<Rightarrow> int \<times> 'c" where
  "slot_key coll sl = (s_start sl, coll (s_productName sl))"

text \<open>
  The value \<open>byDate[dateKey]\<close> of the record that \<open>buildFallbackFromBookings\<close> returns
  (the empty list for a date the record has no entry for); \<open>day_of\<close> gives the local
  calendar date of an instant in the browser's time zone.
\<close>

definition buildFallbackFromBookings ::
  "(string \<Rightarrow> 'c::linorder) \<Rightarrow> (int \<Rightarrow> 'd) \<Rightarrow> (int \<rightharpoonup> string) \<Rightarrow> calendar_event list \<Rightarrow>
   'd \<Rightarrow> AvailabilitySlot list" where
  "buildFallbackFromBookings coll day_of nameMap events dateKey =
     sort_key (slot_key coll)
       (filter (\<lambda>sl. day_of (s_start sl) = dateKey) (fallback_slots nameMap events))"

subsection \<open>\<open>getAvailabilityBlocks\<close>: cache and requests in flight\<close>

text \<open>
  The service's two maps, seen from the event loop. A call of \<open>getAvailabilityBlocks\<close>
  runs without interruption up to its \<open>return\<close>: the cache test, the in-flight test, the
  start of the loader (the \<open>async\<close> block, which issues its first request before it
  suspends) and \<open>availabilityInflight.set\<close>. The loader's continuation runs later, in a turn
  of its own: it stores the data in the cache when it has some, and its \<open>finally\<close> deletes
  the in-flight entry. Promises are numbered in the order of their creation; \<open>running\<close>
  maps a loader that has not settled to its cache key, \<open>loads\<close> lists the keys loaders
  were started for.
\<close>

record 'v service =
  availabilityCache :: "string \<rightharpoonup> 'v"
  availabilityInflight :: "string \<rightharpoonup> nat"
  running :: "nat \<rightharpoonup> string"
  loads :: "string list"
  next_promise :: nat

datatype 'v answer = Cached 'v | Pending nat

definition getAvailabilityBlocks :: "'v service \<Rightarrow> string \<Rightarrow> 'v answer \<times> 'v service" where
  "getAvailabilityBlocks sv cacheKey =
     (case availabilityCache sv cacheKey of
        Some v \<Rightarrow> (Cached v, sv)
      | None \<Rightarrow>
          (case availabilityInflight sv cacheKey of
             Some pr \<Rightarrow> (Pending pr, sv)
           | None \<Rightarrow>
               (let pr = next_promise sv
                in (Pending pr,
                    sv\<lparr>availabilityInflight := (availabilityInflight sv)(cacheKey \<mapsto> pr),
                       running := (running sv)(pr \<mapsto> cacheKey),
                       loads := loads sv @ [cacheKey],
                       next_promise := Suc pr\<rparr>))))"

text \<open>The loader \<open>pr\<close> settles: with data (\<open>Some\<close>), or rejected (\<open>None\<close>).\<close>

definition settle :: "'v service \<Rightarrow> nat \<Rightarrow> 'v option \<Rightarrow> 'v service" where
  "settle sv pr outcome =
     (case running sv pr of
        None \<Rightarrow> sv
      | Some cacheKey \<Rightarrow>
          sv\<lparr>availabilityCache :=
                (case outcome of
                   Some v \<Rightarrow> (availabilityCache sv)(cacheKey \<mapsto> v)
                 | None \<Rightarrow> availabilityCache sv),
             availabilityInflight := (availabilityInflight sv)(cacheKey := None),
             running := (running sv)(pr := None)\<rparr>)"

datatype 'v turn = Call string | Settle nat "'v option"

definition turn_step :: "'v service \<Rightarrow> 'v turn \<Rightarrow> 'v service" where
  "turn_step sv t =
     (case t of
        Call k \<Rightarrow> snd (getAvailabilityBlocks sv k)
      | Settle pr outcome \<Rightarrow> settle sv pr outcome)"

definition run_turns :: "'v service \<Rightarrow> 'v turn list \<Rightarrow> 'v service" where
  "run_turns sv ts = foldl turn_step sv ts"

definition new_service :: "'v service" where
  "new_service = \<lparr>availabilityCache = Map.empty, availabilityInflight = Map.empty,
                   running = Map.empty, loads = [], next_promise = 0\<rparr>"

text \<open>The turn settles the loader \<open>pr\<close>.\<close>

definition settles :: "nat \<Rightarrow> 'v turn \<Rightarrow> bool" where
  "settles pr t = (case t of Call k \<Rightarrow> False | Settle pr' outcome \<Rightarrow> pr' = pr)"

section \<open>The instructor filter of the booking calendar\<close>

text \<open>
  The fields of an event and of an assigned booking that the filter reads. \<open>None\<close> is a
  field that is absent (for a start: a date that is invalid, whose \<open>getTime()\<close> is
  \<open>NaN\<close>).
\<close>

record filter_event =
  e_bookingId :: "int option"
  e_productId :: "int option"
  e_start :: "int option"

record assigned_ref =
  a_wc_bookingId :: "int option"
  a_bookingId :: "int option"
  a_wc_productId :: "int option"
  a_productId :: "int option"
  a_start :: "int option"

text \<open>\<open>a.wooCommerceData?.bookingId || a.bookingId || 0\<close>\<close>

definition or_else_zero :: "int option \<Rightarrow> int option \<Rightarrow> int" where
  "or_else_zero v w = (if or_zero v \<noteq> 0 then or_zero v else or_zero w)"

text \<open>\<open>Math.abs(astart.getTime() - estart.getTime()) <= window\<close>, false when a time is \<open>NaN\<close>.\<close>

definition within :: "int \<Rightarrow> int option \<Rightarrow> int option \<Rightarrow> bool" where
  "within window astart estart =
     (case (astart, estart) of (Some a, Some b) \<Rightarrow> \<bar>a - b\<bar> \<le> window | _ \<Rightarrow> False)"

text \<open>
  The string \<open>`${getFullYear()}-${month}-${day}`\<close> of a start in local time; an invalid date
  gives \<open>NaN-NaN-NaN\<close>, here \<open>None\<close>.
\<close>

definition day_key :: "(int \<Rightarrow> 'd) \<Rightarrow> int option \<Rightarrow> 'd option" where
  "day_key day_of st = map_option day_of st"

definition tier_exact :: "assigned_ref list \<Rightarrow> filter_event \<Rightarrow> bool" where
  "tier_exact assigned ev =
     list_ex (\<lambda>a. let bid = or_zero (e_bookingId ev);
                      abid = or_else_zero (a_wc_bookingId a) (a_bookingId a)
                  in bid \<noteq> 0 \<and> abid \<noteq> 0 \<and> bid = abid) assigned"

definition tier_6h :: "assigned_ref list \<Rightarrow> filter_event \<Rightarrow> bool" where
  "tier_6h assigned ev =
     list_ex (\<lambda>a. let pid = or_zero (e_productId ev);
                      apid = or_else_zero (a_wc_productId a) (a_productId a)
                  in if pid = 0 \<or> apid = 0 \<or> pid \<noteq> apid then False
                     else within (6 * 60 * 60 * 1000) (a_start a) (e_start ev)) assigned"

definition tier_same_day :: "(int \<Rightarrow> 'd) \<Rightarrow> assigned_ref list \<Rightarrow> filter_event \<Rightarrow> bool" where
  "tier_same_day day_of assigned ev =
     list_ex (\<lambda>a. let pid = or_zero (e_productId ev);
                      apid = or_else_zero (a_wc_productId a) (a_productId a)
                  in pid \<noteq> 0 \<and> apid \<noteq> 0 \<and> pid = apid \<and>
                     day_key day_of (a_start a) = day_key day_of (e_start ev)) assigned"

definition tier_90m :: "assigned_ref list \<Rightarrow> filter_event \<Rightarrow> bool" where
  "tier_90m assigned ev = list_ex (\<lambda>a. within (90 * 60 * 1000) (a_start a) (e_start ev)) assigned"

text \<open>The filter of \<open>loadMonth\<close> (lines 239 to 288).\<close>

definition loadMonth_keeps :: "(int \<Rightarrow> 'd) \<Rightarrow> assigned_ref list \<Rightarrow> filter_event \<Rightarrow> bool" where
  "loadMonth_keeps day_of assigned ev =
     (if tier_exact assigned ev then True
      else if tier_6h assigned ev then True
      else if tier_same_day day_of assigned ev then True
      else tier_90m assigned ev)"

definition loadMonth_filter ::
  "(int \<Rightarrow> 'd) \<Rightarrow> bool \<Rightarrow> filter_event list \<Rightarrow> assigned_ref list \<Rightarrow> filter_event list" where
  "loadMonth_filter day_of filterActive allEvents assigned =
     (if filterActive then filter (loadMonth_keeps day_of assigned) allEvents else allEvents)"

text \<open>The filter of the refresh handler (lines 532 to 567).\<close>

definition refresh_keeps :: "(int \<Rightarrow> 'd) \<Rightarrow> assigned_ref list \<Rightarrow> filter_event \<Rightarrow> bool" where
  "refresh_keeps day_of assigned ev =
     (if tier_6h assigned ev then True
      else if tier_same_day day_of assigned ev then True
      else tier_90m assigned ev)"

definition refresh_filter ::
  "(int \<Rightarrow> 'd) \<Rightarrow> bool \<Rightarrow> filter_event list \<Rightarrow> assigned_ref list \<Rightarrow> filter_event list" where
  "refresh_filter day_of filterActive allEvents assigned =
     (if filterActive then filter (refresh_keeps day_of assigned) allEvents else allEvents)"

text \<open>Page 1 holds 100 records and every other request times out.\<close>

definition page1_then_timeout :: "nat \<Rightarrow> nat page_result" where
  "page1_then_timeout p = (if p = 1 then Batch (replicate 100 7) else Timeout)"

section \<open>Stated properties and fixtures\<close>

text \<open>
  The test of the defensive filter on an upstream record, written on the two bounds: from
  \<open>start_date\<close> 00:00:00 UTC to \<open>end_date\<close> 23:59:59 UTC, each bound only when the
  parameter is given, read on the start that \<open>parseBookingDateToMs\<close> parses.
\<close>

definition in_requested_range :: "runtime \<Rightarrow> query \<Rightarrow> booking \<Rightarrow> bool" where
  "in_requested_range rt q b =
     ((if truthy (start_date q) then
         (case date_parse rt (or_empty (start_date q) @ ''T00:00:00Z'') of
            None \<Rightarrow> False
          | Some lo \<Rightarrow> lo \<le> parseBookingDateToMs rt (b_start b))
       else True) \<and>
      (if truthy (end_date q) then
         (case date_parse rt (or_empty (end_date q) @ ''T23:59:59Z'') of
            None \<Rightarrow> False
          | Some hi \<Rightarrow> parseBookingDateToMs rt (b_start b) \<le> hi)
       else True))"

text \<open>An environment without any of the three variables, and one with all of them.\<close>

definition no_env :: env where
  "no_env = \<lparr>WOOCOMMERCE_STORE_URL = None, WOOCOMMERCE_CONSUMER_KEY = None,
              WOOCOMMERCE_CONSUMER_SECRET = None\<rparr>"

definition shop_env :: env where
  "shop_env = \<lparr>WOOCOMMERCE_STORE_URL = Some ''https://shop.example'',
                WOOCOMMERCE_CONSUMER_KEY = Some ''ck_1'', WOOCOMMERCE_CONSUMER_SECRET = Some ''cs_1''\<rparr>"

text \<open>A runtime that parses the two bounds of 10 March 2024, at 13:00 UTC of that day.\<close>

definition march10_rt :: runtime where
  "march10_rt =
     \<lparr>intl = (\<lambda>tz. None),
      date_parse = (\<lambda>s. if s = ''2024-03-10T00:00:00Z'' then Some 1710028800000
                         else if s = ''2024-03-10T23:59:59Z'' then Some 1710115199000
                         else None),
      date_now = 1710075600000, to_double = Fin\<rparr>"

definition march10_query :: query where
  "march10_query = \<lparr>start_date = Some ''2024-03-10'', end_date = Some ''2024-03-10'', q_status = None\<rparr>"

text \<open>A booking of product 11 for two persons that starts at the given Unix time.\<close>

definition booking_at :: "int \<Rightarrow> int \<Rightarrow> booking" where
  "booking_at i secs =
     \<lparr>b_id = i, product_id = IdNum 11, order_id = None, b_start = INum (Fin secs),
      b_end = INum (Fin (secs + 3600)), booking_start = INull, u_booking_start = INull,
      booking_end = INull, u_booking_end = INull, b_person_counts = PcArr [2],
      b_status = ''confirmed'', product_name = None\<rparr>"

text \<open>One page: a booking at noon of 10 March 2024 and one at noon of 12 March 2024.\<close>

definition march_page :: "nat \<Rightarrow> booking page_result" where
  "march_page p = (if p = 1 then Batch [booking_at 1 1710072000, booking_at 2 1710244800] else Timeout)"

text \<open>
  A booking and an assignment that share the identifier 7 and nothing else: no product on
  either side, starts two hours apart.
\<close>

definition event_7 :: filter_event where
  "event_7 = \<lparr>e_bookingId = Some 7, e_productId = None, e_start = Some 1710072000000\<rparr>"

definition assigned_7 :: assigned_ref where
  "assigned_7 = \<lparr>a_wc_bookingId = Some 7, a_bookingId = None, a_wc_productId = None,
                  a_productId = None, a_start = Some 1710079200000\<rparr>"

text \<open>
  The in-flight map and the running loaders describe each other, and promise numbers are
  fresh: what holds of the service between any two turns.
\<close>

definition consistent :: "'v service \<Rightarrow> bool" where
  "consistent sv =
     ((\<forall>k pr. availabilityInflight sv k = Some pr \<longleftrightarrow> running sv pr = Some k) \<and>
      (\<forall>pr k. running sv pr = Some k \<longrightarrow> pr < next_promise sv))"

text \<open>The key \<open>k\<close> is being loaded by \<open>pr\<close> and has no cached value.\<close>

definition loading :: "string \<Rightarrow> nat \<Rightarrow> 'v service \<Rightarrow> bool" where
  "loading k pr sv =
     (consistent sv \<and> availabilityInflight sv k = Some pr \<and> availabilityCache sv k = None)"

text \<open>
  The step both grouping loops take on a \<open>Map\<close>: the value under the key of \<open>x\<close> becomes
  \<open>comb prev x\<close> when the key has a value \<open>prev\<close>, and \<open>init x\<close> when it has none.
\<close>

definition upsert ::
  "('x \<Rightarrow> 'k) \<Rightarrow> ('x \<Rightarrow> 'v) \<Rightarrow> ('v \<Rightarrow> 'x \<Rightarrow> 'v) \<Rightarrow> ('k \<times> 'v) list \<Rightarrow> 'x \<Rightarrow> ('k \<times> 'v) list" where
  "upsert key init comb m x =
     AList.update (key x) (case map_of m (key x) of Some prev \<Rightarrow> comb prev x | None \<Rightarrow> init x) m"

text \<open>The value a key ends with, from the value it starts with and the elements of its group.\<close>

definition fold_group :: "('x \<Rightarrow> 'v) \<Rightarrow> ('v \<Rightarrow> 'x \<Rightarrow> 'v) \<Rightarrow> 'v option \<Rightarrow> 'x list \<Rightarrow> 'v option" where
  "fold_group init comb v0 g =
     foldl (\<lambda>acc x. Some (case acc of Some prev \<Rightarrow> comb prev x | None \<Rightarrow> init x)) v0 g"

text \<open>The elements of a list in the order in which they first occur.\<close>

primrec first_seen :: "'a list \<Rightarrow> 'a list" where
  "first_seen [] = []"
| "first_seen (x # xs) = x # removeAll x (first_seen xs)"

text \<open>What an event brings to its group in \<open>buildFallbackFromBookings\<close>.\<close>

definition event_key :: "calendar_event \<Rightarrow> int \<times> int" where
  "event_key ev = (or_zero (productId ev), ev_start ev)"

definition event_end :: "calendar_event \<Rightarrow> int" where
  "event_end ev = (if ev_end ev \<noteq> 0 then ev_end ev else ev_start ev)"

definition event_count :: "calendar_event \<Rightarrow> int" where
  "event_count ev = (if participants ev \<noteq> 0 then participants ev else 1)"

text \<open>
  The group of a key in the words of the specification: the events with that product and
  start, \<open>used\<close> the sum of their participant counts, \<open>end\<close> the latest of their ends.
\<close>

definition group_of :: "calendar_event list \<Rightarrow> int \<times> int \<Rightarrow> fallback_group option" where
  "group_of events k =
     (let g = filter (\<lambda>ev. event_key ev = k) events
      in if g = [] then None
         else Some \<lparr>c_productId = fst k, c_start = snd k, c_end = Max (set (map event_end g)),
                    c_used = sum_list (map event_count g)\<rparr>)"

text \<open>The slots of the groups, in the order in which their products and starts first occur.\<close>

definition slots_first_seen :: "(int \<rightharpoonup> string) \<Rightarrow> calendar_event list \<Rightarrow> AvailabilitySlot list" where
  "slots_first_seen nameMap events =
     List.map_filter (\<lambda>k. map_option (slot_of nameMap) (group_of events k))
       (first_seen (map event_key events))"

text \<open>The same for the loop of \<open>handleAvailabilityRange\<close>: the key of a record, and the sum of a group.\<close>

definition booking_key :: "runtime \<Rightarrow> booking \<Rightarrow> jsnum \<times> jsnum" where
  "booking_key rt b = (pid_num (product_id b), slot_ms rt (b_start b))"

definition used_of :: "runtime \<Rightarrow> int list \<Rightarrow> booking list \<Rightarrow> jsnum \<times> jsnum \<Rightarrow> int option" where
  "used_of rt allowedIds all k =
     (let g = filter (\<lambda>b. \<not> skipped allowedIds b \<and> booking_key rt b = k) all
      in if g = [] then None else Some (sum_list (map (\<lambda>b. parseCounts (b_person_counts b)) g)))"

text \<open>A record whose end, when it has one that counts, is not before its start.\<close>

definition end_not_before_start :: "runtime \<Rightarrow> booking \<Rightarrow> bool" where
  "end_not_before_start rt b =
     (if js_truthy (slot_ms rt (b_end b))
      then js_max (slot_ms rt (b_start b)) (slot_ms rt (b_end b)) = slot_ms rt (b_end b)
      else True)"

text \<open>
  The \<open>end\<close> of a group in the loop of \<open>handleAvailabilityRange\<close>: the latest of the start
  and the ends that its records give (an end of \<open>0\<close> or \<open>NaN\<close> does not count).
\<close>

definition end_of :: "runtime \<Rightarrow> int list \<Rightarrow> booking list \<Rightarrow> jsnum \<times> jsnum \<Rightarrow> jsnum option" where
  "end_of rt allowedIds all k =
     (let g = filter (\<lambda>b. \<not> skipped allowedIds b \<and> booking_key rt b = k) all
      in if g = [] then None
         else Some (fold js_max (filter js_truthy (map (\<lambda>b. slot_ms rt (b_end b)) g)) (snd k)))"

text \<open>
  Two events of the same start for the products 11 and 12, both of which are named
  \<open>Dive\<close>; names compared by their code units, dates taken in UTC. A third event, for
  product 11 at that start, ends later; and a booking at that start has no end.
\<close>

definition dive_a :: calendar_event where
  "dive_a = \<lparr>ev_id = ''wc-1'', title = ''Dive'', ev_start = 1710072000000, ev_end = 1710079200000,
              participants = 2, maxParticipants = 15, ev_status = ''confirmed'', bookingId = 1,
              orderId = None, productId = Some 11\<rparr>"

definition dive_b :: calendar_event where
  "dive_b = \<lparr>ev_id = ''wc-2'', title = ''Dive'', ev_start = 1710072000000, ev_end = 1710075600000,
              participants = 3, maxParticipants = 15, ev_status = ''confirmed'', bookingId = 2,
              orderId = None, productId = Some 12\<rparr>"

definition dive_c :: calendar_event where
  "dive_c = dive_a\<lparr>ev_id := ''wc-3'', ev_end := 1710082800000, participants := 4, bookingId := 3\<rparr>"

definition open_end_booking :: booking where
  "open_end_booking = (booking_at 2 1710072000)\<lparr>b_end := INull\<rparr>"

definition dive_names :: "int \<rightharpoonup> string" where
  "dive_names = [11 \<mapsto> ''Dive'', 12 \<mapsto> ''Dive'']"

definition code_units :: "string \<Rightarrow> nat list" where
  "code_units s = map of_char s"

definition utc_day :: "int \<Rightarrow> int" where
  "utc_day t = t div 86400000"

text \<open>
  A booking whose start is no date, a page that holds it after a good one, and the page
  of the good one alone.
\<close>

definition bad_booking :: booking where
  "bad_booking = (booking_at 3 1710072000)\<lparr>b_start := IStr ''next tuesday''\<rparr>"

definition bad_page :: "nat \<Rightarrow> booking page_result" where
  "bad_page p = (if p = 1 then Batch [booking_at 1 1710072000, bad_booking] else Timeout)"

definition good_page :: "nat \<Rightarrow> booking page_result" where
  "good_page p = (if p = 1 then Batch [booking_at 1 1710072000] else Timeout)"











section \<open>Properties of the time normalisation\<close>

lemma MIN_VALID_value: "MIN_VALID = 946684800000"
  by (simp add: MIN_VALID_def dateUTC_def days_from_civil_def)

lemma all_digits_trim: "all_digits s \<Longrightarrow> trim s = s"
proof -
  assume a: "all_digits s"
  have nws: "is_digit c \<Longrightarrow> \<not> is_ws c" for c
    by (auto simp: is_digit_def is_ws_def)
  from a have ne: "s \<noteq> []" and hd: "is_digit (hd s)" and la: "is_digit (last s)"
    by (auto simp: all_digits_def list_all_iff)
  have 1: "dropWhile is_ws s = s"
    using hd nws by (simp add: dropWhile_eq_self_iff)
  have "hd (rev s) = last s" using ne by (simp add: hd_rev)
  then have 2: "dropWhile is_ws (rev s) = rev s"
    using la nws by (simp add: dropWhile_eq_self_iff)
  show ?thesis by (simp add: trim_def 1 2)
qed

text \<open>
  Where the string rule and the number rule agree: a digit string that spells a number up
  to \<open>2^53\<close> is read like that number exactly when it is below \<open>10^9\<close> or at least \<open>10^12\<close>.
\<close>

lemma digit_string_agrees_iff:
  assumes "all_digits s" and "digits_val s \<le> 9007199254740992"
  shows "toUtcMs rt (IStr s) tz = toUtcMs rt (INum (Fin (digits_val s))) tz
           \<longleftrightarrow> digits_val s < 1000000000 \<or> 1000000000000 \<le> digits_val s"
proof -
  from assms have ne: "s \<noteq> []" by (simp add: all_digits_def)
  show ?thesis
    using assms ne
    by (simp add: toUtcMs_def all_digits_trim Let_def MS_THRESHOLD_def MIN_VALID_value
        js_lt_def js_times_def finite_from_floor_def parseInt10_def js_at_least_def)
qed

text \<open>
  A digit string beyond the range of doubles comes back as \<open>Infinity\<close>, the one result of
  \<open>toUtcMs\<close> that is not finite.
\<close>

lemma toUtcMs_digit_string_infinite:
  assumes "all_digits s" and "digits_val s > 9007199254740992"
    and "to_double rt (digits_val s) = PosInf"
  shows "toUtcMs rt (IStr s) tz = Some PosInf"
proof -
  from assms have ne: "s \<noteq> []" by (simp add: all_digits_def)
  show ?thesis
    using assms ne
    by (simp add: toUtcMs_def all_digits_trim Let_def MS_THRESHOLD_def MIN_VALID_value
        js_lt_def js_times_def parseInt10_def js_at_least_def)
qed

text \<open>
  C1. An all-digit string is not handled like the number it spells: the string
  \<open>"1700000000"\<close> gives \<open>null\<close>, the number \<open>1700000000\<close> gives \<open>1700000000000\<close>. The string
  branch compares with \<open>MS_THRESHOLD / 1000\<close>, the number branch with \<open>MS_THRESHOLD\<close>.
\<close>

theorem toUtcMs_digit_string_differs:
  "toUtcMs rt (IStr ''1700000000'') tz = None \<and>
   toUtcMs rt (INum (Fin 1700000000)) tz = Some (Fin 1700000000000)"
  by (simp add: toUtcMs_def trim_def is_ws_def all_digits_def is_digit_def digits_val_def
      MS_THRESHOLD_def MIN_VALID_value js_lt_def js_times_def finite_from_floor_def
      parseInt10_def js_at_least_def)

text \<open>
  C2. A finite number below \<open>10^12\<close> is multiplied by 1000, a number from \<open>10^12\<close> on passes
  unchanged, and a result before 1 January 2000 UTC (946684800000 ms) is \<open>null\<close>; so a
  number of seconds from 946684800 on is accepted, a smaller one rejected, and the floor
  rejects no number taken as milliseconds. Numbers that are not finite give \<open>null\<close>.
\<close>

theorem toUtcMs_number:
  "toUtcMs rt (INum (Fin n)) tz =
     (if n < 1000000000000 then (if 946684800 \<le> n then Some (Fin (n * 1000)) else None)
      else Some (Fin n)) \<and>
   toUtcMs rt (INum (Fin n)) tz =
     (let ms = (if n < MS_THRESHOLD then n * 1000 else n)
      in if MIN_VALID \<le> ms then Some (Fin ms) else None) \<and>
   toUtcMs rt (INum (Fin 1700000000)) tz = Some (Fin 1700000000000) \<and>
   toUtcMs rt (INum (Fin 1700000000000)) tz = Some (Fin 1700000000000) \<and>
   toUtcMs rt (INum NaN) tz = None \<and> toUtcMs rt (INum PosInf) tz = None \<and>
   toUtcMs rt (INum NegInf) tz = None"
  by (simp add: toUtcMs_def js_lt_def js_times_def finite_from_floor_def MS_THRESHOLD_def
      MIN_VALID_value Let_def)

subsection \<open>Naive local strings\<close>

lemma replace_space_T_length: "length (replace_space_T s) = length s"
  by (induction s) auto

lemma replace_space_T_nth:
  "i < length s \<Longrightarrow>
   replace_space_T s ! i = s ! i \<or> (s ! i = CHR '' '' \<and> replace_space_T s ! i = CHR ''T'')"
proof (induction s arbitrary: i)
  case Nil
  then show ?case by simp
next
  case (Cons c cs)
  then show ?case by (cases i) auto
qed

lemma all_take_drop:
  assumes "list_all P (take m (drop k s))" "k \<le> i" "i < k + m" "i < length s"
  shows "P (s ! i)"
proof -
  have "i - k < length s - k" "i - k < m" using assms(2-4) by linarith+
  then have "i - k < length (take m (drop k s))" by simp
  then have "P (take m (drop k s) ! (i - k))" using assms(1) by (simp add: list_all_length)
  moreover have "take m (drop k s) ! (i - k) = s ! i" using assms by simp
  ultimately show ?thesis by simp
qed

lemma all_take:
  assumes "list_all P (take m s)" "i < m" "i < length s"
  shows "P (s ! i)"
  using all_take_drop[of P m 0 s i] assms by simp

lemma date_part_plain:
  assumes "date_part_ok s" "i < 10" "10 \<le> length s"
  shows "plain (s ! i)"
proof -
  from assms(1) have a: "list_all is_digit (take 4 s)" "s ! 4 = CHR ''-''"
    "list_all is_digit (take 2 (drop 5 s))" "s ! 7 = CHR ''-''" "list_all is_digit (take 2 (drop 8 s))"
    by (simp_all add: date_part_ok_def)
  consider "i < 4" | "i = 4" | "5 \<le> i \<and> i < 7" | "i = 7" | "8 \<le> i \<and> i < 10"
    using assms(2) by linarith
  then show ?thesis
  proof cases
    case 1 then show ?thesis using all_take[OF a(1), of i] assms(3) by (simp add: plain_def)
  next
    case 2 then show ?thesis using a(2) by (simp add: plain_def)
  next
    case 3 then show ?thesis using all_take_drop[OF a(3), of i] assms(3) by (simp add: plain_def)
  next
    case 4 then show ?thesis using a(4) by (simp add: plain_def)
  next
    case 5 then show ?thesis using all_take_drop[OF a(5), of i] assms(3) by (simp add: plain_def)
  qed
qed

lemma hm_part_plain:
  assumes "hm_part_ok s" "10 \<le> i" "i < 16" "16 \<le> length s"
  shows "plain (s ! i)"
proof -
  from assms(1) have a: "s ! 10 = CHR '' '' \<or> s ! 10 = CHR ''T''"
    "list_all is_digit (take 2 (drop 11 s))" "s ! 13 = CHR '':''" "list_all is_digit (take 2 (drop 14 s))"
    by (simp_all add: hm_part_ok_def)
  consider "i = 10" | "11 \<le> i \<and> i < 13" | "i = 13" | "14 \<le> i \<and> i < 16"
    using assms(2,3) by linarith
  then show ?thesis
  proof cases
    case 1 then show ?thesis using a(1) by (auto simp add: plain_def)
  next
    case 2 then show ?thesis using all_take_drop[OF a(2), of i] assms(4) by (simp add: plain_def)
  next
    case 3 then show ?thesis using a(3) by (simp add: plain_def)
  next
    case 4 then show ?thesis using all_take_drop[OF a(4), of i] assms(4) by (simp add: plain_def)
  qed
qed

lemma sec_part_plain:
  assumes "sec_part_ok s" "16 \<le> i" "i < 19" "19 \<le> length s"
  shows "plain (s ! i)"
proof -
  from assms(1) have a: "s ! 16 = CHR '':''" "list_all is_digit (take 2 (drop 17 s))"
    by (simp_all add: sec_part_ok_def)
  consider "i = 16" | "17 \<le> i \<and> i < 19"
    using assms(2,3) by linarith
  then show ?thesis
  proof cases
    case 1 then show ?thesis using a(1) by (auto simp add: plain_def)
  next
    case 2 then show ?thesis using all_take_drop[OF a(2), of i] assms(4) by (simp add: plain_def)
  qed
qed

lemma parse_shape:
  assumes "parseNaiveDateTime s = Some p"
  shows "(length s = 10 \<or> length s = 16 \<or> length s = 19) \<and> s ! 4 = CHR ''-'' \<and> s ! 7 = CHR ''-'' \<and>
         (length s = 16 \<longrightarrow> s ! 10 = CHR '' '' \<or> s ! 10 = CHR ''T'') \<and>
         (length s = 19 \<longrightarrow> s ! 13 = CHR '':'') \<and>
         (\<forall>i < length s. plain (s ! i))"
proof -
  from assms consider
      (a) "length s = 10" "date_part_ok s"
    | (b) "length s = 16" "date_part_ok s" "hm_part_ok s"
    | (c) "length s = 19" "date_part_ok s" "hm_part_ok s" "sec_part_ok s"
    by (auto simp: parseNaiveDateTime_def Let_def split: if_splits)
  then show ?thesis
  proof cases
    case a
    then show ?thesis using date_part_plain[OF a(2)] by (auto simp: date_part_ok_def)
  next
    case b
    have "plain (s ! i)" if "i < 16" for i
      using date_part_plain[OF b(2), of i] hm_part_plain[OF b(3), of i] b(1) that
      by (cases "i < 10") auto
    then show ?thesis using b by (auto simp: date_part_ok_def hm_part_ok_def)
  next
    case c
    have "plain (s ! i)" if "i < 19" for i
      using date_part_plain[OF c(2), of i] hm_part_plain[OF c(3), of i]
        sec_part_plain[OF c(4), of i] c(1) that
      by (cases "i < 10"; cases "i < 16") auto
    then show ?thesis using c by (auto simp: date_part_ok_def hm_part_ok_def)
  qed
qed

text \<open>
  A string that the naive pattern matches after the replacement of its first space is not
  empty, not all digits and carries no zone marker: \<open>toUtcMs\<close> takes it to its last rule.
\<close>

lemma naive_unmarked:
  assumes "parseNaiveDateTime (replace_space_T s) = Some p"
  shows "s \<noteq> [] \<and> \<not> all_digits s \<and> \<not> has_zone_marker s"
proof -
  let ?r = "replace_space_T s"
  note sh = parse_shape[OF assms, unfolded replace_space_T_length]
  from sh have len: "length s = 10 \<or> length s = 16 \<or> length s = 19" by blast
  have keep: "s ! i = ?r ! i" if "i < length s" "?r ! i \<noteq> CHR ''T''" for i
    using replace_space_T_nth[OF that(1)] that(2) by auto
  have s4: "s ! 4 = CHR ''-''" using keep[of 4] sh len by auto
  have s7: "s ! 7 = CHR ''-''" using keep[of 7] sh len by auto
  have nodig: "\<not> all_digits s"
  proof
    assume "all_digits s"
    then have "is_digit (s ! 4)" using len by (auto simp: all_digits_def list_all_length)
    with s4 show False by (simp add: is_digit_def)
  qed
  have noz: "\<not> list_ex (\<lambda>c. c = CHR ''z'' \<or> c = CHR ''Z'') s"
  proof
    assume "list_ex (\<lambda>c. c = CHR ''z'' \<or> c = CHR ''Z'') s"
    then obtain i where i: "i < length s" "s ! i = CHR ''z'' \<or> s ! i = CHR ''Z''"
      by (auto simp: list_ex_length)
    then have "?r ! i = s ! i" using replace_space_T_nth[OF i(1)] by auto
    moreover have "plain (?r ! i)" using sh i(1) by blast
    ultimately show False using i(2) by (auto simp: plain_def is_digit_def)
  qed
  have nosuf: "\<not> offset_suffix s"
  proof
    assume o: "offset_suffix s"
    then have t0: "s ! (length s - 6) = CHR ''+'' \<or> s ! (length s - 6) = CHR ''-''"
      and t3: "s ! (length s - 3) = CHR '':''"
      using len by (auto simp: offset_suffix_def Let_def)
    from len show False
    proof (elim disjE)
      assume "length s = 10"
      with t3 s7 show False by simp
    next
      assume l: "length s = 16"
      then have "?r ! 10 = CHR '' '' \<or> ?r ! 10 = CHR ''T''" using sh by blast
      moreover have "?r ! 10 = s ! 10 \<or> s ! 10 = CHR '' ''"
        using replace_space_T_nth[of 10 s] l by auto
      ultimately show False using t0 l by auto
    next
      assume l: "length s = 19"
      then have "?r ! 13 = CHR '':''" using sh by blast
      then have "s ! 13 = CHR '':''" using keep[of 13] l by auto
      then show False using t0 l by auto
    qed
  qed
  from len nodig noz nosuf show ?thesis by (auto simp: has_zone_marker_def)
qed

text \<open>The wall-clock readings in the gap are exactly those that no instant shows.\<close>

lemma wall_clock_exists_iff: "(\<exists>u. shift_zone T a b u = L) \<longleftrightarrow> \<not> in_gap T a b L"
proof
  assume "\<exists>u. shift_zone T a b u = L"
  then obtain u where "shift_zone T a b u = L" ..
  then show "\<not> in_gap T a b L"
    by (auto simp: shift_zone_def in_gap_def split: if_splits)
next
  assume n: "\<not> in_gap T a b L"
  show "\<exists>u. shift_zone T a b u = L"
  proof (cases "L - a < T")
    case True
    then have "shift_zone T a b (L - a) = L" by (simp add: shift_zone_def)
    then show ?thesis ..
  next
    case False
    with n have "\<not> L - b < T" by (simp add: in_gap_def)
    then have "shift_zone T a b (L - b) = L" by (simp add: shift_zone_def)
    then show ?thesis ..
  qed
qed

text \<open>
  The two passes on a zone that, at the three instants the passes can look at, has offset
  \<open>a\<close> before \<open>T\<close> and \<open>b\<close> from \<open>T\<close> on.
\<close>

lemma two_pass:
  assumes zone: "intl rt tz = Some wall"
    and p: "parseNaiveDateTime s = Some p"
    and w: "\<forall>u. \<bar>u - localTs_of p\<bar> \<le> max \<bar>a\<bar> \<bar>b\<bar> \<longrightarrow> wall u = shift_zone T a b u"
  shows "\<exists>r. zonedNaiveToUtcMs rt s tz = Inr (Some r) \<and>
     (if in_gap T a b (localTs_of p) then \<bar>wall r - localTs_of p\<bar> = b - a
      else wall r = localTs_of p)"
proof -
  let ?L = "localTs_of p"
  have w0: "wall ?L = shift_zone T a b ?L" using w by simp
  have wa: "wall (?L - a) = shift_zone T a b (?L - a)" using w by simp
  have wb: "wall (?L - b) = shift_zone T a b (?L - b)" using w by simp
  show ?thesis
    using zone p w0 wa wb
    by (auto simp: zonedNaiveToUtcMs_def getTzOffsetMs_def Let_def shift_zone_def in_gap_def
        split: if_splits)
qed

text \<open>
  C3, as the code has it. For a naive local string and a zone whose offset is \<open>a\<close> before
  an instant \<open>T\<close> and \<open>b\<close> from \<open>T\<close> on (within the larger offset of the local time stamp),
  \<open>toUtcMs\<close> does not throw: it resolves an instant \<open>r\<close> and returns it, or \<open>null\<close> when
  \<open>r\<close> is before 1 January 2000 UTC. When the wall-clock time exists in the zone, \<open>r\<close>
  shows that wall-clock time again; when it lies in the gap that the clocks skip, \<open>r\<close>
  shows a wall-clock time exactly the change \<open>b - a\<close> away from it.
\<close>

theorem naive_roundtrip_two_pass:
  assumes zone: "intl rt tz = Some wall"
    and naive: "parseNaiveDateTime (replace_space_T (trim str)) = Some p"
    and one_change: "\<forall>u. \<bar>u - localTs_of p\<bar> \<le> max \<bar>a\<bar> \<bar>b\<bar> \<longrightarrow> wall u = shift_zone T a b u"
  shows "\<exists>r. toUtcMs rt (IStr str) tz = (if MIN_VALID \<le> r then Some (Fin r) else None) \<and>
     (if in_gap T a b (localTs_of p) then \<bar>wall r - localTs_of p\<bar> = b - a
      else wall r = localTs_of p)"
proof -
  from two_pass[OF zone naive one_change] obtain r where
    r: "zonedNaiveToUtcMs rt (replace_space_T (trim str)) tz = Inr (Some r)"
    and shown: "if in_gap T a b (localTs_of p) then \<bar>wall r - localTs_of p\<bar> = b - a
               else wall r = localTs_of p"
    by blast
  from naive_unmarked[OF naive]
  have "toUtcMs rt (IStr str) tz = (if MIN_VALID \<le> r then Some (Fin r) else None)"
    by (simp add: toUtcMs_def Let_def r)
  with shown show ?thesis by blast
qed

lemma eastern_transition: "dateUTC 2024 2 10 7 0 0 = 1710054000000"
  by (simp add: dateUTC_def days_from_civil_def)

lemma parse_0330:
  "parseNaiveDateTime (replace_space_T (trim ''2024-03-10 03:30'')) =
     Some \<lparr>p_y = 2024, p_mo = 3, p_d = 10, p_h = 3, p_mi = 30, p_se = 0\<rparr>"
  by (simp add: parseNaiveDateTime_def trim_def is_ws_def date_part_ok_def hm_part_ok_def
      is_digit_def digits_val_def Let_def)

theorem naive_roundtrip_two_pass_witness:
  "toUtcMs eastern_rt (IStr ''2024-03-10 03:30'') ''America/New_York'' = Some (Fin 1710055800000) \<and>
   eastern_2024 1710055800000 = dateUTC 2024 2 10 3 30 0"
proof -
  let ?p = "\<lparr>p_y = 2024, p_mo = 3, p_d = 10, p_h = 3, p_mi = 30, p_se = 0\<rparr>"
  have L: "localTs_of ?p = 1710041400000"
    by (simp add: localTs_of_def dateUTC_def days_from_civil_def)
  have z: "intl eastern_rt ''America/New_York'' = Some eastern_2024"
    by (simp add: eastern_rt_def)
  have w: "\<forall>u. \<bar>u - localTs_of ?p\<bar> \<le> max \<bar>- 18000000\<bar> \<bar>- 14400000\<bar> \<longrightarrow>
             eastern_2024 u = shift_zone (dateUTC 2024 2 10 7 0 0) (- 18000000) (- 14400000) u"
    by (simp add: eastern_2024_def)
  from naive_roundtrip_two_pass[OF z parse_0330 w]
  obtain r where r: "toUtcMs eastern_rt (IStr ''2024-03-10 03:30'') ''America/New_York'' =
        (if MIN_VALID \<le> r then Some (Fin r) else None)"
    and b: "if in_gap (dateUTC 2024 2 10 7 0 0) (- 18000000) (- 14400000) (localTs_of ?p)
            then \<bar>eastern_2024 r - localTs_of ?p\<bar> = - 14400000 - (- 18000000)
            else eastern_2024 r = localTs_of ?p"
    by blast
  have ng: "\<not> in_gap (dateUTC 2024 2 10 7 0 0) (- 18000000) (- 14400000) (localTs_of ?p)"
    by (simp add: in_gap_def L eastern_transition)
  from b ng have wr: "eastern_2024 r = 1710041400000" by (simp add: L)
  then have "r = 1710055800000"
    by (simp add: eastern_2024_def shift_zone_def eastern_transition split: if_splits)
  with r wr show ?thesis
    by (simp add: MIN_VALID_value dateUTC_def days_from_civil_def)
qed

text \<open>
  The claim as stated fails in the gap: 02:30 on 10 March 2024 does not exist in US Eastern
  time, and the instant \<open>toUtcMs\<close> resolves shows 01:30.
\<close>

theorem naive_roundtrip_gap_counterexample:
  "toUtcMs eastern_rt (IStr ''2024-03-10 02:30'') ''America/New_York'' = Some (Fin 1710052200000) \<and>
   eastern_2024 1710052200000 = dateUTC 2024 2 10 1 30 0 \<and>
   dateUTC 2024 2 10 1 30 0 \<noteq> dateUTC 2024 2 10 2 30 0"
  by (simp add: toUtcMs_def trim_def is_ws_def all_digits_def is_digit_def has_zone_marker_def
      offset_suffix_def zonedNaiveToUtcMs_def parseNaiveDateTime_def date_part_ok_def
      hm_part_ok_def digits_val_def localTs_of_def getTzOffsetMs_def eastern_rt_def
      eastern_2024_def shift_zone_def dateUTC_def days_from_civil_def MIN_VALID_def Let_def)


section \<open>Properties of the paged fetching\<close>

lemma gb5: "getBookings_pages up 5 all = all @ batch_of (up 5)"
  by (subst getBookings_pages.simps) (simp add: batch_of_def perPage_def split: page_result.splits)

lemma gb_step:
  "p < 5 \<Longrightarrow> getBookings_pages up p all =
     (if ends_paging (up p) then all @ batch_of (up p)
      else getBookings_pages up (p + 1) (all @ batch_of (up p)))"
  by (subst getBookings_pages.simps)
     (simp add: batch_of_def perPage_def ends_paging_def is_failure_def split: page_result.splits)

lemma av6: "availability_pages up 6 all = all"
  by (subst availability_pages.simps) simp

lemma av5: "availability_pages up 5 all = all @ batch_of (up 5)"
  by (subst availability_pages.simps) (simp add: batch_of_def av6 split: page_result.splits)

lemma av_step:
  "p < 5 \<Longrightarrow> availability_pages up p all =
     (if ends_paging (up p) then all @ batch_of (up p)
      else availability_pages up (p + 1) (all @ batch_of (up p)))"
  by (subst availability_pages.simps)
     (simp add: batch_of_def ends_paging_def is_failure_def split: page_result.splits)

lemma last_page_unfold:
  "last_page up = (if ends_paging (up 1) then 1 else if ends_paging (up 2) then 2
     else if ends_paging (up 3) then 3 else if ends_paging (up 4) then 4 else 5)"
  by (simp add: last_page_def)

lemma gb_closed:
  "getBookings_pages up 1 [] = concat (map (\<lambda>p. batch_of (up p)) [1..<Suc (last_page up)])"
proof -
  have 4: "getBookings_pages up 4 all =
      (if ends_paging (up 4) then all @ batch_of (up 4) else all @ batch_of (up 4) @ batch_of (up 5))" for all
    using gb_step[of 4 up all] by (simp add: gb5)
  have 3: "getBookings_pages up 3 all =
      (if ends_paging (up 3) then all @ batch_of (up 3) else getBookings_pages up 4 (all @ batch_of (up 3)))" for all
    using gb_step[of 3 up all] by simp
  have 2: "getBookings_pages up 2 all =
      (if ends_paging (up 2) then all @ batch_of (up 2) else getBookings_pages up 3 (all @ batch_of (up 2)))" for all
    using gb_step[of 2 up all] by simp
  have 1: "getBookings_pages up 1 all =
      (if ends_paging (up 1) then all @ batch_of (up 1) else getBookings_pages up 2 (all @ batch_of (up 1)))" for all
    using gb_step[of 1 up all] by (simp del: One_nat_def)
  show ?thesis
    unfolding 1 2 3 4 last_page_unfold by (simp add: upt_rec eval_nat_numeral)
qed

lemma av_closed:
  "availability_pages up 1 [] = concat (map (\<lambda>p. batch_of (up p)) [1..<Suc (last_page up)])"
proof -
  have 4: "availability_pages up 4 all =
      (if ends_paging (up 4) then all @ batch_of (up 4) else all @ batch_of (up 4) @ batch_of (up 5))" for all
    using av_step[of 4 up all] by (simp add: av5)
  have 3: "availability_pages up 3 all =
      (if ends_paging (up 3) then all @ batch_of (up 3) else availability_pages up 4 (all @ batch_of (up 3)))" for all
    using av_step[of 3 up all] by simp
  have 2: "availability_pages up 2 all =
      (if ends_paging (up 2) then all @ batch_of (up 2) else availability_pages up 3 (all @ batch_of (up 2)))" for all
    using av_step[of 2 up all] by simp
  have 1: "availability_pages up 1 all =
      (if ends_paging (up 1) then all @ batch_of (up 1) else availability_pages up 2 (all @ batch_of (up 1)))" for all
    using av_step[of 1 up all] by (simp del: One_nat_def)
  show ?thesis
    unfolding 1 2 3 4 last_page_unfold by (simp add: upt_rec eval_nat_numeral)
qed

lemma last_page_bounds: "1 \<le> last_page up \<and> last_page up \<le> 5"
  by (simp add: last_page_unfold)

lemma before_last: "1 \<le> p \<Longrightarrow> p < last_page up \<Longrightarrow> \<not> ends_paging (up p)"
proof -
  assume a: "1 \<le> p" "p < last_page up"
  then have "p = 1 \<or> p = 2 \<or> p = 3 \<or> p = 4" using last_page_bounds[of up] by linarith
  with a(2) show ?thesis
    by (auto simp: last_page_unfold split: if_splits)
qed

lemma last_page_cong: "(\<forall>p. 1 \<le> p \<and> p \<le> 5 \<longrightarrow> up p = up' p) \<Longrightarrow> last_page up = last_page up'"
  by (simp add: last_page_unfold)

text \<open>
  C7. Both loops return the records of pages 1 to \<open>last_page\<close>, in order: the pages before
  the last are full batches, the last is the first page that fails or is short, or page 5.
  A failing page adds nothing, so the result is exactly what the pages before it held; no
  page beyond 5 is looked at; the result is a list in every case, and not the empty list
  when page 1 held records.
\<close>

theorem paged_fetch_partial_results:
  fixes up :: "nat \<Rightarrow> 'r page_result"
  shows
    "getBookings_pages up 1 [] = concat (map (\<lambda>p. batch_of (up p)) [1..<Suc (last_page up)]) \<and>
     availability_pages up 1 [] = concat (map (\<lambda>p. batch_of (up p)) [1..<Suc (last_page up)]) \<and>
     1 \<le> last_page up \<and> last_page up \<le> 5 \<and>
     (\<forall>p. 1 \<le> p \<and> p < last_page up \<longrightarrow> \<not> is_failure (up p) \<and> 100 \<le> length (batch_of (up p))) \<and>
     (is_failure (up (last_page up)) \<longrightarrow>
        getBookings_pages up 1 [] = concat (map (\<lambda>p. batch_of (up p)) [1..<last_page up]) \<and>
        availability_pages up 1 [] = concat (map (\<lambda>p. batch_of (up p)) [1..<last_page up])) \<and>
     (\<forall>up'. (\<forall>p. 1 \<le> p \<and> p \<le> 5 \<longrightarrow> up' p = up p) \<longrightarrow>
        getBookings_pages up' 1 [] = getBookings_pages up 1 [] \<and>
        availability_pages up' 1 [] = availability_pages up 1 []) \<and>
     (\<forall>b1. up 1 = Batch b1 \<and> is_failure (up 2) \<longrightarrow>
        getBookings_pages up 1 [] = b1 \<and> availability_pages up 1 [] = b1) \<and>
     (\<forall>b1. up 1 = Batch b1 \<and> b1 \<noteq> [] \<longrightarrow>
        getBookings_pages up 1 [] \<noteq> [] \<and> availability_pages up 1 [] \<noteq> [])"
proof -
  let ?all = "\<lambda>n. concat (map (\<lambda>p. batch_of (up p)) [1..<n])"
  have g: "getBookings_pages up 1 [] = ?all (Suc (last_page up))" by (rule gb_closed)
  have a: "availability_pages up 1 [] = ?all (Suc (last_page up))" by (rule av_closed)
  have before: "\<forall>p. 1 \<le> p \<and> p < last_page up \<longrightarrow>
      \<not> is_failure (up p) \<and> 100 \<le> length (batch_of (up p))"
    using before_last[of _ up] by (fastforce simp: ends_paging_def not_less)
  have fail: "?all (Suc (last_page up)) = ?all (last_page up)" if "is_failure (up (last_page up))"
  proof -
    from that have "batch_of (up (last_page up)) = []"
      by (auto simp: is_failure_def batch_of_def split: page_result.splits)
    then show ?thesis using last_page_bounds[of up] by simp
  qed
  have ceiling: "getBookings_pages up' 1 [] = getBookings_pages up 1 [] \<and>
        availability_pages up' 1 [] = availability_pages up 1 []"
    if eq: "\<forall>p. 1 \<le> p \<and> p \<le> 5 \<longrightarrow> up' p = up p" for up'
  proof -
    have l: "last_page up' = last_page up" using last_page_cong[of up' up] eq by blast
    have "map (\<lambda>p. batch_of (up' p)) [1..<Suc (last_page up)] =
          map (\<lambda>p. batch_of (up p)) [1..<Suc (last_page up)]"
      using eq last_page_bounds[of up] by (intro map_cong) auto
    then show ?thesis by (simp only: gb_closed av_closed l)
  qed
  have first: "?all (Suc (last_page up)) = b1" if "up 1 = Batch b1" "is_failure (up 2)" for b1
  proof (cases "ends_paging (up 1)")
    case True
    then have "last_page up = 1" by (simp add: last_page_unfold)
    then show ?thesis using that by (simp add: batch_of_def)
  next
    case False
    moreover have "ends_paging (up 2)" using that(2) by (simp add: ends_paging_def)
    ultimately have "last_page up = 2" by (simp add: last_page_unfold)
    moreover have "batch_of (up 2) = []" using that(2)
      by (auto simp: is_failure_def batch_of_def split: page_result.splits)
    ultimately show ?thesis using that(1) by (simp add: batch_of_def upt_rec eval_nat_numeral)
  qed
  have nonempty: "?all (Suc (last_page up)) \<noteq> []" if "up 1 = Batch b1" "b1 \<noteq> []" for b1
  proof -
    have "1 \<in> set [1..<Suc (last_page up)]" using last_page_bounds[of up] by auto
    moreover have "batch_of (up 1) \<noteq> []" using that by (simp add: batch_of_def)
    ultimately show ?thesis by (simp only: concat_eq_Nil_conv set_map) blast
  qed
  show ?thesis
    using g a last_page_bounds[of up] before fail ceiling first nonempty
    by (simp only:) blast
qed

text \<open>Page 1 holds 100 records and page 2 times out: the answer is page 1.\<close>

theorem paged_fetch_partial_results_witness:
  "is_failure (page1_then_timeout 2) \<and> last_page page1_then_timeout = 2 \<and>
   getBookings_pages page1_then_timeout 1 [] = replicate 100 7 \<and>
   availability_pages page1_then_timeout 1 [] = replicate 100 7"
proof -
  have f: "is_failure (page1_then_timeout 2)"
    by (simp add: page1_then_timeout_def is_failure_def)
  have l: "last_page page1_then_timeout = 2"
    by (simp add: last_page_unfold ends_paging_def is_failure_def batch_of_def page1_then_timeout_def)
  have u: "page1_then_timeout 1 = Batch (replicate 100 7)"
    by (simp add: page1_then_timeout_def)
  from paged_fetch_partial_results[of page1_then_timeout] u f
  have "getBookings_pages page1_then_timeout 1 [] = replicate 100 7 \<and>
        availability_pages page1_then_timeout 1 [] = replicate 100 7"
    by blast
  with f l show ?thesis by blast
qed

section \<open>Properties of the handlers without configuration\<close>

lemma getWooConfig_None_iff:
  "getWooConfig e = None \<longleftrightarrow>
     \<not> truthy (WOOCOMMERCE_STORE_URL e) \<or> \<not> truthy (WOOCOMMERCE_CONSUMER_KEY e) \<or>
     \<not> truthy (WOOCOMMERCE_CONSUMER_SECRET e)"
  by (simp add: getWooConfig_def)

text \<open>
  C9, as the code has it. With a store URL, consumer key or consumer secret missing or
  empty, the bookings listing answers with status 200 and a success envelope that holds no
  data and the flags \<open>bookings_available: false\<close> and \<open>credentials_missing: true\<close>; the
  availability range answers with status 400, \<open>success: false\<close> and an error message.
  Neither throws, and neither changes its cache.
\<close>

theorem config_absent_answers:
  assumes "\<not> truthy (WOOCOMMERCE_STORE_URL e) \<or> \<not> truthy (WOOCOMMERCE_CONSUMER_KEY e) \<or>
           \<not> truthy (WOOCOMMERCE_CONSUMER_SECRET e)"
  shows "getBookings rt e q bookingsCache up productTitleMap siteTz =
           (\<lparr>r_status = 200, r_success = True, r_data = [], r_total = 0,
             r_message = Some ''WooCommerce credentials not configured. Please set environment variables to connect to your store.'',
             r_bookings_available = False, r_credentials_missing = True,
             r_cached = False, r_demo_mode = False\<rparr>, bookingsCache) \<and>
         handleAvailabilityRange rt e aq cache up' nameMap totalsMap =
           (\<lparr>a_status = 400, a_success = False, a_data = [], a_total = 0, a_cached = False,
             a_error = Some ''WooCommerce credentials not configured''\<rparr>, cache)"
proof -
  from assms have "getWooConfig e = None" by (simp add: getWooConfig_None_iff)
  then show ?thesis by (simp add: getBookings_def handleAvailabilityRange_def)
qed

theorem config_absent_answers_witness:
  "\<not> truthy (WOOCOMMERCE_STORE_URL no_env) \<and>
   r_success (fst (getBookings march10_rt no_env march10_query Map.empty march_page Map.empty None)) \<and>
   r_data (fst (getBookings march10_rt no_env march10_query Map.empty march_page Map.empty None)) = [] \<and>
   r_credentials_missing (fst (getBookings march10_rt no_env march10_query Map.empty march_page Map.empty None)) \<and>
   a_status (fst (handleAvailabilityRange march10_rt no_env
      \<lparr>min_date = None, max_date = None, product_ids = []\<rparr> Map.empty march_page Map.empty Map.empty)) = 400"
proof -
  have h: "\<not> truthy (WOOCOMMERCE_STORE_URL no_env)" by (simp add: no_env_def truthy_def)
  then have "\<not> truthy (WOOCOMMERCE_STORE_URL no_env) \<or> \<not> truthy (WOOCOMMERCE_CONSUMER_KEY no_env) \<or>
           \<not> truthy (WOOCOMMERCE_CONSUMER_SECRET no_env)" by blast
  from config_absent_answers[OF this] h show ?thesis by simp
qed

text \<open>
  The claim as stated fails for the availability range: without configuration its answer
  is an error response, not a success envelope.
\<close>

theorem availability_config_absent_counterexample:
  "a_success (fst (handleAvailabilityRange march10_rt no_env
      \<lparr>min_date = None, max_date = None, product_ids = []\<rparr> Map.empty march_page Map.empty Map.empty)) = False \<and>
   a_status (fst (handleAvailabilityRange march10_rt no_env
      \<lparr>min_date = None, max_date = None, product_ids = []\<rparr> Map.empty march_page Map.empty Map.empty)) = 400 \<and>
   a_error (fst (handleAvailabilityRange march10_rt no_env
      \<lparr>min_date = None, max_date = None, product_ids = []\<rparr> Map.empty march_page Map.empty Map.empty))
     = Some ''WooCommerce credentials not configured''"
  by (simp add: handleAvailabilityRange_def getWooConfig_def no_env_def truthy_def)

section \<open>Properties of the date filter\<close>

lemma date_filter_in_range:
  assumes "truthy (start_date q) \<or> truthy (end_date q)"
    and "b \<in> set (date_filter rt q bookings)"
  shows "b \<in> set bookings \<and> in_requested_range rt q b"
  using assms
  by (auto simp: date_filter_def in_requested_range_def minMs_def maxMs_def js_ge_def js_le_def Let_def
      split: option.splits if_splits)

lemma date_filter_complete:
  assumes "b \<in> set bookings" "in_requested_range rt q b"
  shows "b \<in> set (date_filter rt q bookings)"
  using assms
  by (auto simp: date_filter_def in_requested_range_def minMs_def maxMs_def js_ge_def js_le_def Let_def
      split: option.splits if_splits)

text \<open>An answer from the cache replays what an earlier answer stored under the same key.\<close>

lemma getBookings_cached_replays:
  assumes "r_cached (fst (getBookings rt e q bookingsCache up productTitleMap siteTz))"
  shows "\<exists>ts. bookingsCache (bookings_cacheKey q) =
           Some (ts, r_data (fst (getBookings rt e q bookingsCache up productTitleMap siteTz)))"
  using assms
  by (auto simp: getBookings_def Let_def split: option.splits if_splits prod.splits)

lemma march_pages: "getBookings_pages march_page 1 [] = [booking_at 1 1710072000, booking_at 2 1710244800]"
  by (subst getBookings_pages.simps) (simp add: march_page_def perPage_def)

lemma march_in: "in_requested_range march10_rt march10_query (booking_at 1 1710072000)"
  by (simp add: in_requested_range_def march10_rt_def march10_query_def booking_at_def truthy_def
      or_empty_def parseBookingDateToMs_def)

lemma march_out: "\<not> in_requested_range march10_rt march10_query (booking_at 2 1710244800)"
  by (simp add: in_requested_range_def march10_rt_def march10_query_def booking_at_def truthy_def
      or_empty_def parseBookingDateToMs_def)

lemma march_filter:
  "date_filter march10_rt march10_query [booking_at 1 1710072000, booking_at 2 1710244800] =
     [booking_at 1 1710072000]"
  by (simp add: date_filter_def minMs_def maxMs_def js_ge_def js_le_def march10_rt_def
      march10_query_def booking_at_def truthy_def or_empty_def parseBookingDateToMs_def)

lemma march_response:
  "fst (getBookings march10_rt shop_env march10_query Map.empty march_page Map.empty None) =
     \<lparr>r_status = 200, r_success = True,
      r_data = [convert_booking march10_rt Map.empty None (booking_at 1 1710072000)],
      r_total = 1, r_message = None, r_bookings_available = True, r_credentials_missing = False,
      r_cached = False, r_demo_mode = False\<rparr>"
  using march_pages
  by (simp add: getBookings_def getWooConfig_def shop_env_def truthy_def march_filter Let_def)

subsection \<open>Answers over a sequence of requests\<close>













subsection \<open>The start of a returned event\<close>














section \<open>Properties of the instructor filter\<close>

text \<open>
  In the filter of \<open>loadMonth\<close> a booking whose identifier is that of an assigned booking is
  kept by the first tier, whatever the other tiers find.
\<close>

lemma exact_tier_first:
  assumes "e_bookingId ev = Some b" "b \<noteq> 0"
    and "a \<in> set assigned" "or_else_zero (a_wc_bookingId a) (a_bookingId a) = b"
  shows "tier_exact assigned ev \<and> loadMonth_keeps day_of assigned ev"
proof -
  from assms have "tier_exact assigned ev"
    by (auto simp: tier_exact_def list_ex_iff or_zero_def Let_def)
  then show ?thesis by (simp add: loadMonth_keeps_def)
qed

text \<open>
  C6. The exact-identifier tier comes first in the filter of \<open>loadMonth\<close> only: the filter
  of the refresh handler has no such tier. A booking that shares its identifier with an
  assigned booking, and neither product nor a start within 90 minutes, is kept by
  \<open>loadMonth\<close> and dropped by the refresh.
\<close>

theorem refresh_filter_misses_exact_match:
  "tier_exact [assigned_7] event_7 \<and>
   loadMonth_filter day_of True [event_7] [assigned_7] = [event_7] \<and>
   refresh_filter day_of True [event_7] [assigned_7] = []"
  by (simp add: loadMonth_filter_def refresh_filter_def loadMonth_keeps_def refresh_keeps_def
      tier_exact_def tier_6h_def tier_same_day_def tier_90m_def within_def or_zero_def
      or_else_zero_def event_7_def assigned_7_def Let_def)

section \<open>Properties of the in-flight map\<close>

lemma consistent_new: "consistent new_service"
  by (simp add: consistent_def new_service_def)

lemma consistent_call:
  assumes c: "consistent sv"
  shows "consistent (snd (getAvailabilityBlocks sv k))"
proof (cases "availabilityCache sv k = None \<and> availabilityInflight sv k = None")
  case False
  then show ?thesis using c by (auto simp: getAvailabilityBlocks_def split: option.splits)
next
  case True
  let ?n = "next_promise sv"
  from c have inj: "\<And>k' pr. availabilityInflight sv k' = Some pr \<longleftrightarrow> running sv pr = Some k'"
    and fresh: "\<And>pr k'. running sv pr = Some k' \<Longrightarrow> pr < ?n"
    by (auto simp: consistent_def)
  have rn: "running sv ?n = None"
  proof (cases "running sv ?n")
    case (Some k')
    from fresh[OF this] show ?thesis by simp
  qed simp
  have nok: "running sv pr \<noteq> Some k" for pr
    using inj[of k pr] True by simp
  have sv': "snd (getAvailabilityBlocks sv k) =
      sv\<lparr>availabilityInflight := (availabilityInflight sv)(k \<mapsto> ?n),
         running := (running sv)(?n \<mapsto> k), loads := loads sv @ [k], next_promise := Suc ?n\<rparr>"
    using True by (simp add: getAvailabilityBlocks_def Let_def)
  show ?thesis
    unfolding sv' consistent_def
  proof (intro conjI allI impI)
    fix k' pr
    show "availabilityInflight
            (sv\<lparr>availabilityInflight := (availabilityInflight sv)(k \<mapsto> ?n),
                running := (running sv)(?n \<mapsto> k), loads := loads sv @ [k], next_promise := Suc ?n\<rparr>) k' = Some pr
          \<longleftrightarrow> running
            (sv\<lparr>availabilityInflight := (availabilityInflight sv)(k \<mapsto> ?n),
                running := (running sv)(?n \<mapsto> k), loads := loads sv @ [k], next_promise := Suc ?n\<rparr>) pr = Some k'"
      using inj[of k' pr] rn nok[of pr] by auto
  next
    fix pr k'
    assume "running
            (sv\<lparr>availabilityInflight := (availabilityInflight sv)(k \<mapsto> ?n),
                running := (running sv)(?n \<mapsto> k), loads := loads sv @ [k], next_promise := Suc ?n\<rparr>) pr = Some k'"
    then show "pr < next_promise
            (sv\<lparr>availabilityInflight := (availabilityInflight sv)(k \<mapsto> ?n),
                running := (running sv)(?n \<mapsto> k), loads := loads sv @ [k], next_promise := Suc ?n\<rparr>)"
      using fresh[of pr k'] by (auto split: if_splits simp: less_Suc_eq)
  qed
qed

lemma consistent_settle:
  assumes c: "consistent sv"
  shows "consistent (settle sv pr outcome)"
proof (cases "running sv pr")
  case None
  then show ?thesis using c by (simp add: settle_def)
next
  case (Some k0)
  from c have inj: "\<And>k' p. availabilityInflight sv k' = Some p \<longleftrightarrow> running sv p = Some k'"
    and fresh: "\<And>p k'. running sv p = Some k' \<Longrightarrow> p < next_promise sv"
    by (auto simp: consistent_def)
  have k0: "availabilityInflight sv k0 = Some pr" using inj[of k0 pr] Some by simp
  have "((availabilityInflight sv)(k0 := None)) k' = Some p \<longleftrightarrow> ((running sv)(pr := None)) p = Some k'" for k' p
    using inj[of k' p] k0 Some by auto
  moreover have "p < next_promise sv" if "((running sv)(pr := None)) p = Some k'" for p k'
    using that fresh[of p k'] by (auto split: if_splits)
  ultimately show ?thesis
    using Some by (simp add: settle_def consistent_def)
qed

lemma consistent_turn: "consistent sv \<Longrightarrow> consistent (turn_step sv t)"
  by (cases t) (simp_all add: turn_step_def consistent_call consistent_settle)

lemma consistent_run: "consistent sv \<Longrightarrow> consistent (run_turns sv ts)"
  unfolding run_turns_def
  by (induction ts arbitrary: sv) (simp_all add: consistent_turn)

text \<open>A turn that does not settle the loader of \<open>k\<close> leaves \<open>k\<close> loading and starts no loader for it.\<close>

lemma loading_turn:
  assumes l: "loading k pr sv" and t: "\<not> settles pr t"
  shows "loading k pr (turn_step sv t) \<and> count_list (loads (turn_step sv t)) k = count_list (loads sv) k"
proof (cases t)
  case (Call k')
  have c': "consistent (turn_step sv t)" using l consistent_turn by (auto simp: loading_def)
  show ?thesis
  proof (cases "k' = k")
    case True
    then have "turn_step sv t = sv" using l Call
      by (simp add: turn_step_def getAvailabilityBlocks_def loading_def)
    then show ?thesis using l by simp
  next
    case False
    then show ?thesis using l c' Call
      by (auto simp: turn_step_def getAvailabilityBlocks_def loading_def Let_def split: option.splits)
  qed
next
  case (Settle pr' outcome)
  with t have ne: "pr' \<noteq> pr" by (simp add: settles_def)
  have c': "consistent (turn_step sv t)" using l consistent_turn by (auto simp: loading_def)
  from l have inj: "\<And>k' p. availabilityInflight sv k' = Some p \<longleftrightarrow> running sv p = Some k'"
    by (auto simp: loading_def consistent_def)
  show ?thesis
  proof (cases "running sv pr'")
    case None
    then show ?thesis using l Settle by (simp add: turn_step_def settle_def)
  next
    case (Some k')
    have "k' \<noteq> k"
    proof
      assume "k' = k"
      then have "availabilityInflight sv k = Some pr'" using inj[of k pr'] Some by simp
      with l ne show False by (simp add: loading_def)
    qed
    then show ?thesis using l c' Settle Some
      by (auto simp: turn_step_def settle_def loading_def split: option.splits)
  qed
qed

lemma loading_run:
  assumes "loading k pr sv" "list_all (\<lambda>t. \<not> settles pr t) ts"
  shows "loading k pr (run_turns sv ts) \<and> count_list (loads (run_turns sv ts)) k = count_list (loads sv) k"
  using assms unfolding run_turns_def
proof (induction ts arbitrary: sv)
  case Nil
  then show ?case by simp
next
  case (Cons t ts)
  from loading_turn[OF Cons.prems(1), of t] Cons.prems(2)
  have 1: "loading k pr (turn_step sv t)"
    and 2: "count_list (loads (turn_step sv t)) k = count_list (loads sv) k" by auto
  from Cons.IH[OF 1] Cons.prems(2) 2 show ?case by simp
qed

lemma loading_call:
  assumes "loading k pr sv"
  shows "getAvailabilityBlocks sv k = (Pending pr, sv)"
  using assms by (simp add: loading_def getAvailabilityBlocks_def)

lemma first_call:
  assumes c: "consistent sv" and miss: "availabilityCache sv k = None" and idle: "availabilityInflight sv k = None"
  shows "fst (getAvailabilityBlocks sv k) = Pending (next_promise sv) \<and>
         loading k (next_promise sv) (snd (getAvailabilityBlocks sv k)) \<and>
         loads (snd (getAvailabilityBlocks sv k)) = loads sv @ [k]"
  using consistent_call[OF c, of k] miss idle
  by (simp add: getAvailabilityBlocks_def loading_def Let_def)

lemma loading_settle:
  assumes "loading k pr sv"
  shows "availabilityInflight (settle sv pr outcome) k = None \<and>
         availabilityCache (settle sv pr outcome) k = outcome \<and>
         loads (settle sv pr outcome) = loads sv"
proof -
  from assms have "running sv pr = Some k" by (auto simp: loading_def consistent_def)
  then show ?thesis using assms by (auto simp: settle_def loading_def split: option.splits)
qed

text \<open>
  C8. In a state the service can reach, let a query for a key with no cached value and no
  request in flight be issued: it starts a loader and returns its promise. As long as that
  loader has not settled, whatever other calls are issued and whatever other loaders
  settle, every further query for the key returns that same promise and changes nothing;
  so exactly one loader is started for the key. The in-flight map holds that promise under
  the key until the loader settles, which removes the entry and caches the data, if any.
\<close>

theorem inflight_deduplication:
  assumes reach: "sv = run_turns new_service ts0"
    and miss: "availabilityCache sv k = None"
    and idle: "availabilityInflight sv k = None"
    and unsettled: "list_all (\<lambda>t. \<not> settles (next_promise sv) t) ts"
  shows "fst (getAvailabilityBlocks sv k) = Pending (next_promise sv) \<and>
         (\<forall>n. getAvailabilityBlocks (run_turns (snd (getAvailabilityBlocks sv k)) (take n ts)) k =
                (Pending (next_promise sv), run_turns (snd (getAvailabilityBlocks sv k)) (take n ts))) \<and>
         count_list (loads (run_turns (snd (getAvailabilityBlocks sv k)) ts)) k = Suc (count_list (loads sv) k) \<and>
         availabilityInflight (run_turns (snd (getAvailabilityBlocks sv k)) ts) k = Some (next_promise sv) \<and>
         (\<forall>outcome. availabilityInflight (settle (run_turns (snd (getAvailabilityBlocks sv k)) ts) (next_promise sv) outcome) k = None \<and>
                    availabilityCache (settle (run_turns (snd (getAvailabilityBlocks sv k)) ts) (next_promise sv) outcome) k = outcome)"
proof -
  let ?pr = "next_promise sv"
  let ?sv1 = "snd (getAvailabilityBlocks sv k)"
  have c: "consistent sv" unfolding reach by (rule consistent_run[OF consistent_new])
  from first_call[OF c miss idle] have r1: "fst (getAvailabilityBlocks sv k) = Pending ?pr"
    and l1: "loading k ?pr ?sv1" and ld: "loads ?sv1 = loads sv @ [k]" by auto
  have pre: "loading k ?pr (run_turns ?sv1 (take n ts))" for n
  proof -
    have "list_all (\<lambda>t. \<not> settles ?pr t) (take n ts)"
      using unsettled by (auto simp: list_all_iff dest: in_set_takeD)
    from loading_run[OF l1 this] show ?thesis by simp
  qed
  from loading_run[OF l1 unsettled] have l2: "loading k ?pr (run_turns ?sv1 ts)"
    and cnt: "count_list (loads (run_turns ?sv1 ts)) k = count_list (loads ?sv1) k" by auto
  have "count_list (loads ?sv1) k = Suc (count_list (loads sv) k)" by (simp add: ld)
  with cnt have cnt': "count_list (loads (run_turns ?sv1 ts)) k = Suc (count_list (loads sv) k)" by simp
  from l2 have inf: "availabilityInflight (run_turns ?sv1 ts) k = Some ?pr" by (simp add: loading_def)
  show ?thesis
    using r1 loading_call[OF pre] cnt' inf loading_settle[OF l2] by blast
qed

theorem inflight_deduplication_witness:
  "count_list (loads (run_turns (new_service :: nat service)
      [Call ''2024-03-01|2024-03-31|'', Call ''2024-03-01|2024-03-31|'']))
      ''2024-03-01|2024-03-31|'' = 1 \<and>
   fst (getAvailabilityBlocks (run_turns (new_service :: nat service) [Call ''2024-03-01|2024-03-31|''])
      ''2024-03-01|2024-03-31|'') = Pending 0"
proof -
  let ?k = "''2024-03-01|2024-03-31|''"
  let ?sv = "new_service :: nat service"
  have reach: "?sv = run_turns new_service []" by (simp add: run_turns_def)
  have miss: "availabilityCache ?sv ?k = None" by (simp add: new_service_def)
  have idle: "availabilityInflight ?sv ?k = None" by (simp add: new_service_def)
  have unsettled: "list_all (\<lambda>t. \<not> settles (next_promise ?sv) t) [Call ?k]"
    by (simp add: settles_def)
  have run2: "run_turns ?sv [Call ?k, Call ?k] = run_turns (snd (getAvailabilityBlocks ?sv ?k)) [Call ?k]"
    and run1: "run_turns ?sv [Call ?k] = run_turns (snd (getAvailabilityBlocks ?sv ?k)) (take 0 [Call ?k])"
    by (simp_all add: run_turns_def turn_step_def)
  have n0: "next_promise ?sv = 0" "count_list (loads ?sv) ?k = 0" by (simp_all add: new_service_def)
  from inflight_deduplication[OF reach miss idle unsettled]
  have "count_list (loads (run_turns (snd (getAvailabilityBlocks ?sv ?k)) [Call ?k])) ?k = Suc 0"
    and "fst (getAvailabilityBlocks (run_turns (snd (getAvailabilityBlocks ?sv ?k)) (take 0 [Call ?k])) ?k)
          = Pending 0"
    unfolding n0 by (blast, metis fst_conv)
  then show ?thesis unfolding run2 run1 by simp
qed

section \<open>Properties of the aggregation\<close>

subsection \<open>Grouping into a map\<close>

lemma map_of_upsert:
  "map_of (upsert key init comb m x) k =
     (if k = key x then fold_group init comb (map_of m k) [x] else map_of m k)"
  by (simp add: upsert_def fold_group_def update_conv')

lemma keys_upsert: "fst ` set (upsert key init comb m x) = insert (key x) (fst ` set m)"
  by (simp add: upsert_def dom_update)

lemma distinct_upsert: "distinct (map fst m) \<Longrightarrow> distinct (map fst (upsert key init comb m x))"
  by (simp add: upsert_def distinct_update)

lemma map_of_foldl_upsert:
  "map_of (foldl (upsert key init comb) m xs) k =
     fold_group init comb (map_of m k) (filter (\<lambda>x. key x = k) xs)"
proof (induction xs arbitrary: m)
  case Nil
  then show ?case by (simp add: fold_group_def)
next
  case (Cons x xs)
  show ?case
    by (simp add: Cons.IH map_of_upsert) (simp add: fold_group_def)
qed

lemma keys_foldl_upsert:
  "fst ` set (foldl (upsert key init comb) m xs) = fst ` set m \<union> key ` set xs"
  by (induction xs arbitrary: m) (auto simp: keys_upsert)

lemma distinct_foldl_upsert:
  "distinct (map fst m) \<Longrightarrow> distinct (map fst (foldl (upsert key init comb) m xs))"
  by (induction xs arbitrary: m) (simp_all add: distinct_upsert)

text \<open>The keys of the map come in the order in which they first occur.\<close>

lemma keys_list_upsert:
  "map fst (upsert key init comb m x) =
     (if key x \<in> set (map fst m) then map fst m else map fst m @ [key x])"
  by (simp add: upsert_def update_keys)

lemma filter_removeAll_in:
  "a \<in> S \<Longrightarrow> filter (\<lambda>k. k \<notin> S) (removeAll a L) = filter (\<lambda>k. k \<notin> S) L"
  by (induction L) auto

lemma filter_removeAll_insert:
  "filter (\<lambda>k. k \<noteq> a \<and> P k) L = filter P (removeAll a L)"
  by (induction L) auto

lemma keys_list_foldl_upsert:
  "map fst (foldl (upsert key init comb) m xs) =
     map fst m @ filter (\<lambda>k. k \<notin> set (map fst m)) (first_seen (map key xs))"
proof (induction xs arbitrary: m)
  case Nil
  then show ?case by simp
next
  case (Cons x xs)
  show ?case
  proof (cases "key x \<in> set (map fst m)")
    case True
    then show ?thesis
      using Cons.IH[of "upsert key init comb m x"]
      by (simp add: keys_list_upsert filter_removeAll_in)
  next
    case False
    then show ?thesis
      using Cons.IH[of "upsert key init comb m x"]
      by (simp add: keys_list_upsert filter_removeAll_insert)
  qed
qed

lemma map_values_map_filter:
  assumes "\<And>k g. (k, g) \<in> set al \<Longrightarrow> h k = Some (F g)"
  shows "map (\<lambda>kg. F (snd kg)) al = List.map_filter h (map fst al)"
  using assms
proof (induction al)
  case Nil
  then show ?case by (simp add: map_filter_simps)
next
  case (Cons a al)
  obtain k g where a: "a = (k, g)" by (cases a)
  have "h k = Some (F g)" using Cons.prems[of k g] a by simp
  moreover have "map (\<lambda>kg. F (snd kg)) al = List.map_filter h (map fst al)"
    using Cons by simp
  ultimately show ?case by (simp add: a map_filter_simps)
qed

text \<open>Two association lists with distinct keys that are the same map hold the same pairs.\<close>

lemma same_map_same_mset:
  assumes "distinct (map fst a)" "distinct (map fst b)" "map_of a = map_of b"
  shows "mset a = mset b"
proof -
  have "set a = set b" using assms map_of_inject_set by blast
  moreover have "distinct a" "distinct b" using assms(1,2) by (auto simp: distinct_map)
  ultimately show ?thesis using set_eq_iff_mset_eq_distinct by blast
qed

subsection \<open>The fallback aggregation\<close>

lemma fallback_step_upsert:
  "fallback_step =
     upsert event_key
       (\<lambda>ev. \<lparr>c_productId = fst (event_key ev), c_start = snd (event_key ev),
              c_end = event_end ev, c_used = event_count ev\<rparr>)
       (\<lambda>prev ev. prev\<lparr>c_used := c_used prev + event_count ev, c_end := max (c_end prev) (event_end ev)\<rparr>)"
  by (intro ext)
     (simp add: fallback_step_def upsert_def event_key_def event_end_def event_count_def Let_def
       split: option.splits)

lemma Max_insert_max:
  fixes a b :: int
  assumes "finite S"
  shows "Max (insert (max a b) S) = max a (Max (insert b S))"
proof (cases "S = {}")
  case True
  then show ?thesis by simp
next
  case False
  then show ?thesis using assms by (simp add: max.assoc)
qed

lemma fold_fallback_group:
  "fold_group
     (\<lambda>ev. \<lparr>c_productId = fst (event_key ev), c_start = snd (event_key ev),
            c_end = event_end ev, c_used = event_count ev\<rparr>)
     (\<lambda>prev ev. prev\<lparr>c_used := c_used prev + event_count ev, c_end := max (c_end prev) (event_end ev)\<rparr>)
     (Some \<lparr>c_productId = p, c_start = s, c_end = e, c_used = u\<rparr>) g =
   Some \<lparr>c_productId = p, c_start = s, c_end = Max (insert e (set (map event_end g))),
         c_used = u + sum_list (map event_count g)\<rparr>"
proof (induction g arbitrary: e u)
  case Nil
  then show ?case by (simp add: fold_group_def)
next
  case (Cons x xs)
  have "Max (insert (max e (event_end x)) (event_end ` set xs)) =
        max e (Max (insert (event_end x) (event_end ` set xs)))"
    by (rule Max_insert_max) simp
  then show ?case
    using Cons.IH[of "max e (event_end x)" "u + event_count x"]
    by (simp add: fold_group_def add.assoc)
qed

lemma map_of_fallback_groups: "map_of (fallback_groups events) k = group_of events k"
proof -
  let ?g = "filter (\<lambda>ev. event_key ev = k) events"
  have m: "map_of (fallback_groups events) k =
      fold_group
        (\<lambda>ev. \<lparr>c_productId = fst (event_key ev), c_start = snd (event_key ev),
               c_end = event_end ev, c_used = event_count ev\<rparr>)
        (\<lambda>prev ev. prev\<lparr>c_used := c_used prev + event_count ev, c_end := max (c_end prev) (event_end ev)\<rparr>)
        None ?g"
    by (simp add: fallback_groups_def fallback_step_upsert map_of_foldl_upsert)
  show ?thesis
  proof (cases ?g)
    case Nil
    then show ?thesis by (simp add: m group_of_def fold_group_def)
  next
    case (Cons x xs)
    have "x \<in> set ?g" using Cons by simp
    then have kx: "event_key x = k" by simp
    have "fold_group
        (\<lambda>ev. \<lparr>c_productId = fst (event_key ev), c_start = snd (event_key ev),
               c_end = event_end ev, c_used = event_count ev\<rparr>)
        (\<lambda>prev ev. prev\<lparr>c_used := c_used prev + event_count ev, c_end := max (c_end prev) (event_end ev)\<rparr>)
        None (x # xs) =
      Some \<lparr>c_productId = fst k, c_start = snd k, c_end = Max (insert (event_end x) (set (map event_end xs))),
         c_used = event_count x + sum_list (map event_count xs)\<rparr>"
      using fold_fallback_group[of "fst k" "snd k" "event_end x" "event_count x" xs] kx
      by (simp add: fold_group_def)
    then show ?thesis using Cons by (simp add: m group_of_def)
  qed
qed

lemma distinct_fallback_groups: "distinct (map fst (fallback_groups events))"
  by (simp add: fallback_groups_def fallback_step_upsert distinct_foldl_upsert)

lemma same_set_empty: "set xs = set ys \<Longrightarrow> (xs = [] \<longleftrightarrow> ys = [])"
  by (cases xs; cases ys) auto

lemma sum_list_map_perm:
  fixes f :: "'a \<Rightarrow> int"
  assumes "mset xs = mset ys"
  shows "sum_list (map f xs) = sum_list (map f ys)"
proof -
  have "sum_mset (mset (map f xs)) = sum_mset (mset (map f ys))"
    using assms by simp
  then show ?thesis by (simp only: sum_mset_sum_list)
qed

lemma group_of_perm:
  assumes "mset events = mset events'"
  shows "group_of events = group_of events'"
proof
  fix k
  let ?g = "filter (\<lambda>ev. event_key ev = k) events"
  let ?g' = "filter (\<lambda>ev. event_key ev = k) events'"
  have m: "mset ?g = mset ?g'" using assms by simp
  then have s: "set ?g = set ?g'" by (rule mset_eq_setD)
  have e: "?g = [] \<longleftrightarrow> ?g' = []" using s by (rule same_set_empty)
  have su: "sum_list (map event_count ?g) = sum_list (map event_count ?g')"
    by (rule sum_list_map_perm[OF m])
  have mx: "set (map event_end ?g) = set (map event_end ?g')" using s by simp
  show "group_of events k = group_of events' k"
    unfolding group_of_def Let_def using e su mx by (simp only:)
qed

lemma fallback_groups_perm:
  assumes "mset events = mset events'"
  shows "mset (fallback_groups events) = mset (fallback_groups events')"
proof (rule same_map_same_mset)
  show "map_of (fallback_groups events) = map_of (fallback_groups events')"
    using group_of_perm[OF assms] by (intro ext) (simp add: map_of_fallback_groups)
qed (rule distinct_fallback_groups)+

lemma fallback_slots_perm:
  assumes "mset events = mset events'"
  shows "mset (fallback_slots nameMap events) = mset (fallback_slots nameMap events')"
  using fallback_groups_perm[OF assms] by (simp add: fallback_slots_def)

text \<open>Every slot is the slot of the group of its product and start.\<close>

lemma fallback_slot_group:
  assumes "sl \<in> set (fallback_slots nameMap events)"
  shows "\<exists>g. group_of events (s_productId sl, s_start sl) = Some g \<and> sl = slot_of nameMap g"
proof -
  from assms obtain k g where kg: "(k, g) \<in> set (fallback_groups events)" and sl: "sl = slot_of nameMap g"
    by (auto simp: fallback_slots_def)
  from kg have "map_of (fallback_groups events) k = Some g"
    using distinct_fallback_groups by simp
  then have g: "group_of events k = Some g" by (simp add: map_of_fallback_groups)
  then have "k = (c_productId g, c_start g)"
    by (auto simp: group_of_def Let_def split: if_splits)
  with g sl show ?thesis by (simp add: slot_of_def Let_def)
qed

lemma event_has_slot:
  assumes "ev \<in> set events"
  shows "\<exists>sl \<in> set (fallback_slots nameMap events).
           s_productId sl = or_zero (productId ev) \<and> s_start sl = ev_start ev"
proof -
  let ?k = "event_key ev"
  have "filter (\<lambda>e. event_key e = ?k) events \<noteq> []"
    using assms by (auto simp: filter_empty_conv)
  then obtain g where g: "group_of events ?k = Some g" "c_productId g = fst ?k" "c_start g = snd ?k"
    by (auto simp: group_of_def Let_def)
  then have "map_of (fallback_groups events) ?k = Some g" by (simp add: map_of_fallback_groups)
  then have "(?k, g) \<in> set (fallback_groups events)" by (rule map_of_SomeD)
  then have "slot_of nameMap g \<in> set (fallback_slots nameMap events)"
    by (force simp: fallback_slots_def)
  moreover have "s_productId (slot_of nameMap g) = or_zero (productId ev)"
    "s_start (slot_of nameMap g) = ev_start ev"
    using g by (simp_all add: slot_of_def Let_def event_key_def)
  ultimately show ?thesis by blast
qed

lemma fallback_keys: "map fst (fallback_groups events) = first_seen (map event_key events)"
  by (simp add: fallback_groups_def fallback_step_upsert keys_list_foldl_upsert)

lemma fallback_slots_first_seen: "fallback_slots nameMap events = slots_first_seen nameMap events"
proof -
  have "map (\<lambda>kg. slot_of nameMap (snd kg)) (fallback_groups events) =
        List.map_filter (\<lambda>k. map_option (slot_of nameMap) (group_of events k))
          (map fst (fallback_groups events))"
  proof (rule map_values_map_filter)
    fix k g assume "(k, g) \<in> set (fallback_groups events)"
    then have "map_of (fallback_groups events) k = Some g"
      using distinct_fallback_groups by simp
    then show "map_option (slot_of nameMap) (group_of events k) = Some (slot_of nameMap g)"
      by (simp add: map_of_fallback_groups)
  qed
  then show ?thesis by (simp add: fallback_slots_def slots_first_seen_def fallback_keys)
qed

subsection \<open>The grouping loop of the server\<close>

lemma foldl_skip:
  "foldl (\<lambda>m x. if P x then m else f m x) m xs = foldl f m (filter (\<lambda>x. \<not> P x) xs)"
  by (induction xs arbitrary: m) simp_all

lemma group_step_upsert:
  "group_step rt allowedIds =
     (\<lambda>m b. if skipped allowedIds b then m
             else upsert (booking_key rt)
               (\<lambda>b. \<lparr>g_product_id = pid_num (product_id b), g_start = slot_ms rt (b_start b),
                      g_end = js_or (slot_ms rt (b_end b)) (slot_ms rt (b_start b)),
                      g_used = parseCounts (b_person_counts b)\<rparr>)
               (\<lambda>prev b. prev\<lparr>g_used := g_used prev + parseCounts (b_person_counts b),
                               g_end := js_max (g_end prev) (js_or (slot_ms rt (b_end b)) (g_end prev))\<rparr>)
               m b)"
  by (intro ext)
     (simp add: group_step_def upsert_def booking_key_def Let_def split: option.splits)

lemma fold_used:
  "map_option g_used
     (fold_group init
        (\<lambda>prev b. prev\<lparr>g_used := g_used prev + cnt b, g_end := en prev b\<rparr>) (Some p) g) =
   Some (g_used p + sum_list (map cnt g))"
proof (induction g arbitrary: p)
  case Nil
  then show ?case by (simp add: fold_group_def)
next
  case (Cons x xs)
  show ?case
    using Cons.IH[of "p\<lparr>g_used := g_used p + cnt x, g_end := en p x\<rparr>"]
    by (simp add: fold_group_def add.assoc)
qed

lemma group_bookings_used:
  "map_option g_used (map_of (group_bookings rt allowedIds all) k) = used_of rt allowedIds all k"
proof -
  let ?init = "\<lambda>b. \<lparr>g_product_id = pid_num (product_id b), g_start = slot_ms rt (b_start b),
                      g_end = js_or (slot_ms rt (b_end b)) (slot_ms rt (b_start b)),
                      g_used = parseCounts (b_person_counts b)\<rparr>"
  let ?comb = "\<lambda>prev b. prev\<lparr>g_used := g_used prev + parseCounts (b_person_counts b),
                               g_end := js_max (g_end prev) (js_or (slot_ms rt (b_end b)) (g_end prev))\<rparr>"
  let ?g = "filter (\<lambda>b. \<not> skipped allowedIds b \<and> booking_key rt b = k) all"
  have "group_bookings rt allowedIds all =
        foldl (upsert (booking_key rt) ?init ?comb) [] (filter (\<lambda>b. \<not> skipped allowedIds b) all)"
    unfolding group_bookings_def group_step_upsert by (rule foldl_skip)
  then have m: "map_of (group_bookings rt allowedIds all) k = fold_group ?init ?comb None ?g"
    by (simp add: map_of_foldl_upsert filter_filter)
  show ?thesis
  proof (cases ?g)
    case Nil
    then show ?thesis by (simp add: m used_of_def fold_group_def)
  next
    case (Cons x xs)
    have "fold_group ?init ?comb None (x # xs) = fold_group ?init ?comb (Some (?init x)) xs"
      by (simp add: fold_group_def)
    then have "map_option g_used (fold_group ?init ?comb None (x # xs)) =
        Some (parseCounts (b_person_counts x) + sum_list (map (\<lambda>b. parseCounts (b_person_counts b)) xs))"
      using fold_used[where init = ?init and cnt = "\<lambda>b. parseCounts (b_person_counts b)"
          and en = "\<lambda>prev b. js_max (g_end prev) (js_or (slot_ms rt (b_end b)) (g_end prev))"
          and p = "?init x" and g = xs]
      by simp
    then show ?thesis using Cons by (simp add: m used_of_def)
  qed
qed

lemma used_of_perm:
  assumes "mset all = mset all'"
  shows "used_of rt allowedIds all = used_of rt allowedIds all'"
proof
  fix k
  let ?P = "\<lambda>b. \<not> skipped allowedIds b \<and> booking_key rt b = k"
  have m: "mset (filter ?P all) = mset (filter ?P all')" using assms by simp
  then have "set (filter ?P all) = set (filter ?P all')" by (rule mset_eq_setD)
  then have e: "filter ?P all = [] \<longleftrightarrow> filter ?P all' = []" by (rule same_set_empty)
  have su: "sum_list (map (\<lambda>b. parseCounts (b_person_counts b)) (filter ?P all)) =
        sum_list (map (\<lambda>b. parseCounts (b_person_counts b)) (filter ?P all'))"
    by (rule sum_list_map_perm[OF m])
  show "used_of rt allowedIds all k = used_of rt allowedIds all' k"
  proof (cases "filter ?P all = []")
    case True
    with e show ?thesis by (simp add: used_of_def)
  next
    case False
    with e su show ?thesis by (simp add: used_of_def)
  qed
qed

text \<open>\<open>Math.max\<close> does not depend on the order of its arguments.\<close>

lemma js_max_idem: "js_max x x = x"
  by (cases x) simp_all

lemma js_max_commute: "js_max x y = js_max y x"
  by (cases x; cases y) (simp_all add: max.commute)

lemma js_max_left_commute: "js_max x (js_max y z) = js_max y (js_max x z)"
  by (cases x; cases y; cases z) (simp_all add: max.left_commute)

lemma fold_js_max_perm:
  assumes "mset xs = mset ys"
  shows "fold js_max xs s = fold js_max ys s"
proof -
  have "fold js_max xs = fold js_max ys"
    by (rule fold_multiset_equiv) (simp_all add: fun_eq_iff js_max_left_commute assms)
  then show ?thesis by simp
qed

lemma fold_end:
  "map_option g_end
     (fold_group init
        (\<lambda>prev b. prev\<lparr>g_used := u prev b, g_end := js_max (g_end prev) (js_or (E b) (g_end prev))\<rparr>)
        (Some p) g) =
   Some (fold js_max (filter js_truthy (map E g)) (g_end p))"
proof (induction g arbitrary: p)
  case Nil
  then show ?case by (simp add: fold_group_def)
next
  case (Cons x xs)
  let ?comb = "\<lambda>prev b. prev\<lparr>g_used := u prev b, g_end := js_max (g_end prev) (js_or (E b) (g_end prev))\<rparr>"
  have step: "fold_group init ?comb (Some p) (x # xs) = fold_group init ?comb (Some (?comb p x)) xs"
    by (simp add: fold_group_def)
  have e: "js_max (g_end p) (js_or (E x) (g_end p)) =
      (if js_truthy (E x) then js_max (E x) (g_end p) else g_end p)"
    by (simp add: js_or_def js_max_idem js_max_commute)
  have "fold js_max (filter js_truthy (map E (x # xs))) (g_end p) =
        fold js_max (filter js_truthy (map E xs)) (g_end (?comb p x))"
    by (simp add: e)
  then show ?case
    unfolding step using Cons.IH[of "?comb p x"] by (simp only:)
qed

lemma group_bookings_keys:
  "map fst (group_bookings rt allowedIds all) =
     first_seen (map (booking_key rt) (filter (\<lambda>b. \<not> skipped allowedIds b) all))"
proof -
  let ?init = "\<lambda>b. \<lparr>g_product_id = pid_num (product_id b), g_start = slot_ms rt (b_start b),
                      g_end = js_or (slot_ms rt (b_end b)) (slot_ms rt (b_start b)),
                      g_used = parseCounts (b_person_counts b)\<rparr>"
  let ?comb = "\<lambda>prev b. prev\<lparr>g_used := g_used prev + parseCounts (b_person_counts b),
                               g_end := js_max (g_end prev) (js_or (slot_ms rt (b_end b)) (g_end prev))\<rparr>"
  have "group_bookings rt allowedIds all =
        foldl (upsert (booking_key rt) ?init ?comb) [] (filter (\<lambda>b. \<not> skipped allowedIds b) all)"
    unfolding group_bookings_def group_step_upsert by (rule foldl_skip)
  then show ?thesis by (simp add: keys_list_foldl_upsert)
qed

lemma group_bookings_end:
  assumes "\<forall>b \<in> set all. end_not_before_start rt b"
  shows "map_option g_end (map_of (group_bookings rt allowedIds all) k) = end_of rt allowedIds all k"
proof -
  let ?init = "\<lambda>b. \<lparr>g_product_id = pid_num (product_id b), g_start = slot_ms rt (b_start b),
                      g_end = js_or (slot_ms rt (b_end b)) (slot_ms rt (b_start b)),
                      g_used = parseCounts (b_person_counts b)\<rparr>"
  let ?comb = "\<lambda>prev b. prev\<lparr>g_used := g_used prev + parseCounts (b_person_counts b),
                               g_end := js_max (g_end prev) (js_or (slot_ms rt (b_end b)) (g_end prev))\<rparr>"
  let ?g = "filter (\<lambda>b. \<not> skipped allowedIds b \<and> booking_key rt b = k) all"
  let ?E = "\<lambda>b. slot_ms rt (b_end b)"
  have "group_bookings rt allowedIds all =
        foldl (upsert (booking_key rt) ?init ?comb) [] (filter (\<lambda>b. \<not> skipped allowedIds b) all)"
    unfolding group_bookings_def group_step_upsert by (rule foldl_skip)
  then have m: "map_of (group_bookings rt allowedIds all) k = fold_group ?init ?comb None ?g"
    by (simp add: map_of_foldl_upsert filter_filter)
  show ?thesis
  proof (cases ?g)
    case Nil
    then show ?thesis by (simp add: m end_of_def fold_group_def)
  next
    case (Cons x xs)
    then have "x \<in> set ?g" by simp
    then have kx: "slot_ms rt (b_start x) = snd k" and ok: "end_not_before_start rt x"
      using assms by (auto simp: booking_key_def)
    have "fold_group ?init ?comb None (x # xs) = fold_group ?init ?comb (Some (?init x)) xs"
      by (simp add: fold_group_def)
    then have "map_option g_end (fold_group ?init ?comb None (x # xs)) =
        Some (fold js_max (filter js_truthy (map ?E xs)) (js_or (?E x) (snd k)))"
      using fold_end[where init = ?init
          and u = "\<lambda>prev b. g_used prev + parseCounts (b_person_counts b)"
          and E = ?E and p = "?init x" and g = xs]
      by (simp add: kx)
    moreover have "fold js_max (filter js_truthy (map ?E xs)) (js_or (?E x) (snd k)) =
        fold js_max (filter js_truthy (map ?E (x # xs))) (snd k)"
    proof (cases "js_truthy (?E x)")
      case True
      with ok kx have "js_max (snd k) (?E x) = ?E x" by (simp add: end_not_before_start_def)
      then have "js_max (?E x) (snd k) = ?E x" by (simp only: js_max_commute[of "?E x"])
      with True show ?thesis by (simp add: js_or_def)
    next
      case False
      then show ?thesis by (simp add: js_or_def)
    qed
    ultimately show ?thesis using Cons by (simp add: m end_of_def)
  qed
qed

lemma end_of_perm:
  assumes "mset all = mset all'"
  shows "end_of rt allowedIds all = end_of rt allowedIds all'"
proof
  fix k
  let ?P = "\<lambda>b. \<not> skipped allowedIds b \<and> booking_key rt b = k"
  let ?E = "\<lambda>b. slot_ms rt (b_end b)"
  have m: "mset (filter ?P all) = mset (filter ?P all')" using assms by simp
  then have "set (filter ?P all) = set (filter ?P all')" by (rule mset_eq_setD)
  then have e: "filter ?P all = [] \<longleftrightarrow> filter ?P all' = []" by (rule same_set_empty)
  have "mset (filter js_truthy (map ?E (filter ?P all))) = mset (filter js_truthy (map ?E (filter ?P all')))"
    using m by (simp only: mset_filter mset_map)
  then have f: "fold js_max (filter js_truthy (map ?E (filter ?P all))) (snd k) =
        fold js_max (filter js_truthy (map ?E (filter ?P all'))) (snd k)"
    by (rule fold_js_max_perm)
  show "end_of rt allowedIds all k = end_of rt allowedIds all' k"
  proof (cases "filter ?P all = []")
    case True
    with e show ?thesis by (simp add: end_of_def)
  next
    case False
    with e f show ?thesis by (simp add: end_of_def)
  qed
qed

lemma end_not_before_start_perm:
  assumes "mset all = mset all'" "\<forall>b \<in> set all. end_not_before_start rt b"
  shows "\<forall>b \<in> set all'. end_not_before_start rt b"
proof -
  from assms(1) have "set all = set all'" by (rule mset_eq_setD)
  with assms(2) show ?thesis by simp
qed

subsection \<open>Order of the input\<close>

lemma sorted_same_mset:
  fixes xs ys :: "'a::linorder list"
  assumes "sorted xs" "sorted ys" "mset xs = mset ys"
  shows "xs = ys"
proof -
  have "sort xs = xs" using assms(1) by (intro properties_for_sort) simp_all
  moreover have "sort xs = ys" using assms(2,3) by (intro properties_for_sort) simp_all
  ultimately show ?thesis by simp
qed

lemma distinct_fallback_slot_keys:
  "distinct (map (\<lambda>sl. (s_productId sl, s_start sl)) (fallback_slots nameMap events))"
proof -
  have "map (\<lambda>sl. (s_productId sl, s_start sl)) (fallback_slots nameMap events) =
        map fst (fallback_groups events)"
    unfolding fallback_slots_def map_map
  proof (rule map_cong[OF refl])
    fix kg assume a: "kg \<in> set (fallback_groups events)"
    obtain k g where kg: "kg = (k, g)" by (cases kg)
    from a kg have "map_of (fallback_groups events) k = Some g"
      using distinct_fallback_groups by simp
    then have "group_of events k = Some g" by (simp add: map_of_fallback_groups)
    then have "k = (c_productId g, c_start g)"
      by (auto simp: group_of_def Let_def split: if_splits)
    then show "((\<lambda>sl. (s_productId sl, s_start sl)) \<circ> (\<lambda>kg. slot_of nameMap (snd kg))) kg = fst kg"
      by (simp add: kg slot_of_def Let_def)
  qed
  then show ?thesis by (simp add: distinct_fallback_groups)
qed

text \<open>
  C4, as the code has it. For a list of events and any permutation of it, the fallback
  aggregation gives, for every date, the same slots: one slot for each product and start
  that occurs, \<open>used\<close> the sum of the participant counts of its events and \<open>end\<close> the
  latest of their ends, so both are the same for both orders. Each list is sorted ascending
  by start and then by display name, and the two lists show the same sequence of (start,
  name) pairs; they are the same list when no two slots of the date agree in start and
  name, and the slots that agree in start and name stand in the order in which their
  products and starts first occur in the input. In the grouping loop of the server the
  groups stand in the order in which their keys first occur, \<open>used\<close> of every group is the
  sum of the counts of its records, the same for both orders, and, when no record has an
  end before its start, \<open>end\<close> of every group is the latest of the start and the ends of
  its records, the same for both orders.
\<close>

theorem aggregation_order_independent:
  fixes coll :: "string \<Rightarrow> 'c::linorder" and day_of :: "int \<Rightarrow> 'd"
  assumes ev: "mset events = mset events'" and bk: "mset all = mset all'"
  shows
    "mset (buildFallbackFromBookings coll day_of nameMap events dk) =
       mset (buildFallbackFromBookings coll day_of nameMap events' dk) \<and>
     sorted (map (slot_key coll) (buildFallbackFromBookings coll day_of nameMap events dk)) \<and>
     map (slot_key coll) (buildFallbackFromBookings coll day_of nameMap events dk) =
       map (slot_key coll) (buildFallbackFromBookings coll day_of nameMap events' dk) \<and>
     (inj_on (slot_key coll) (set (buildFallbackFromBookings coll day_of nameMap events dk)) \<longrightarrow>
        buildFallbackFromBookings coll day_of nameMap events dk =
          buildFallbackFromBookings coll day_of nameMap events' dk) \<and>
     distinct (map (\<lambda>sl. (s_productId sl, s_start sl))
        (buildFallbackFromBookings coll day_of nameMap events dk)) \<and>
     (\<forall>sl \<in> set (buildFallbackFromBookings coll day_of nameMap events dk).
        day_of (s_start sl) = dk \<and>
        s_used sl = sum_list (map event_count
           (filter (\<lambda>e. event_key e = (s_productId sl, s_start sl)) events)) \<and>
        s_end sl = Max (set (map event_end
           (filter (\<lambda>e. event_key e = (s_productId sl, s_start sl)) events)))) \<and>
     (\<forall>e \<in> set events. day_of (ev_start e) = dk \<longrightarrow>
        (\<exists>sl \<in> set (buildFallbackFromBookings coll day_of nameMap events dk).
           s_productId sl = or_zero (productId e) \<and> s_start sl = ev_start e)) \<and>
     (\<forall>k. map_option g_used (map_of (group_bookings rt allowedIds all) k) = used_of rt allowedIds all k \<and>
          map_option g_used (map_of (group_bookings rt allowedIds all') k) = used_of rt allowedIds all k) \<and>
     filter (\<lambda>sl. slot_key coll sl = sk) (buildFallbackFromBookings coll day_of nameMap events dk) =
       filter (\<lambda>sl. slot_key coll sl = sk)
         (filter (\<lambda>sl. day_of (s_start sl) = dk) (slots_first_seen nameMap events)) \<and>
     map fst (group_bookings rt allowedIds all) =
       first_seen (map (booking_key rt) (filter (\<lambda>b. \<not> skipped allowedIds b) all)) \<and>
     ((\<forall>b \<in> set all. end_not_before_start rt b) \<longrightarrow>
        (\<forall>k. map_option g_end (map_of (group_bookings rt allowedIds all) k) = end_of rt allowedIds all k \<and>
             map_option g_end (map_of (group_bookings rt allowedIds all') k) = end_of rt allowedIds all k))"
proof -
  let ?f = "slot_key coll"
  let ?base = "\<lambda>xs. filter (\<lambda>sl. day_of (s_start sl) = dk) (fallback_slots nameMap xs)"
  let ?B = "\<lambda>xs. buildFallbackFromBookings coll day_of nameMap xs dk"
  have B: "?B xs = sort_key ?f (?base xs)" for xs
    by (simp add: buildFallbackFromBookings_def)
  have base: "mset (?base events) = mset (?base events')"
    using fallback_slots_perm[OF ev, of nameMap] by simp
  have 1: "mset (?B events) = mset (?B events')" using base by (simp add: B)
  have 2: "sorted (map ?f (?B xs))" for xs by (simp add: B)
  have "mset (map ?f (?B events)) = mset (map ?f (?B events'))" using 1 by simp
  then have 3: "map ?f (?B events) = map ?f (?B events')"
    using 2 by (intro sorted_same_mset)
  have 4: "?B events = ?B events'" if "inj_on ?f (set (?B events))"
  proof -
    have "inj_on ?f (set (?base events))" using that by (simp add: B)
    moreover have "mset (?base events) = mset (?B events')" using base by (simp add: B)
    ultimately have "sort_key ?f (?base events) = ?B events'"
      using 2[of events'] by (intro sort_key_inj_key_eq)
    then show ?thesis by (simp add: B)
  qed
  have "mset (map (\<lambda>sl. (s_productId sl, s_start sl)) (?B events)) =
        mset (map (\<lambda>sl. (s_productId sl, s_start sl)) (?base events))"
    by (simp add: B)
  moreover have "distinct (map (\<lambda>sl. (s_productId sl, s_start sl)) (?base events))"
    using distinct_fallback_slot_keys[of nameMap events] by (rule distinct_map_filter)
  ultimately have 5: "distinct (map (\<lambda>sl. (s_productId sl, s_start sl)) (?B events))"
    by (metis mset_eq_imp_distinct_iff)
  have 6: "day_of (s_start sl) = dk \<and>
        s_used sl = sum_list (map event_count
           (filter (\<lambda>e. event_key e = (s_productId sl, s_start sl)) events)) \<and>
        s_end sl = Max (set (map event_end
           (filter (\<lambda>e. event_key e = (s_productId sl, s_start sl)) events)))"
    if "sl \<in> set (?B events)" for sl
  proof -
    from that have in_base: "sl \<in> set (fallback_slots nameMap events)" and day: "day_of (s_start sl) = dk"
      by (simp_all add: B)
    from fallback_slot_group[OF in_base] obtain g where
      g: "group_of events (s_productId sl, s_start sl) = Some g" and sl: "sl = slot_of nameMap g"
      by blast
    from g have "c_used g = sum_list (map event_count
           (filter (\<lambda>e. event_key e = (s_productId sl, s_start sl)) events))"
      and "c_end g = Max (set (map event_end
           (filter (\<lambda>e. event_key e = (s_productId sl, s_start sl)) events)))"
      by (auto simp: group_of_def Let_def split: if_splits)
    moreover have "s_used sl = c_used g" "s_end sl = c_end g"
      by (simp_all add: sl slot_of_def Let_def)
    ultimately show ?thesis using day by simp
  qed
  have 7: "\<exists>sl \<in> set (?B events). s_productId sl = or_zero (productId e) \<and> s_start sl = ev_start e"
    if "e \<in> set events" "day_of (ev_start e) = dk" for e
  proof -
    from event_has_slot[OF that(1), of nameMap] obtain sl where
      "sl \<in> set (fallback_slots nameMap events)" "s_productId sl = or_zero (productId e)"
      "s_start sl = ev_start e" by blast
    then show ?thesis using that(2) by (auto simp: B)
  qed
  have 8: "map_option g_used (map_of (group_bookings rt allowedIds all) k) = used_of rt allowedIds all k \<and>
          map_option g_used (map_of (group_bookings rt allowedIds all') k) = used_of rt allowedIds all k" for k
    using used_of_perm[OF bk, of rt allowedIds] by (simp add: group_bookings_used)
  have 9: "filter (\<lambda>sl. ?f sl = sk) (?B events) =
       filter (\<lambda>sl. ?f sl = sk) (filter (\<lambda>sl. day_of (s_start sl) = dk) (slots_first_seen nameMap events))"
    by (simp only: B sort_key_stable fallback_slots_first_seen)
  have 10: "map fst (group_bookings rt allowedIds all) =
       first_seen (map (booking_key rt) (filter (\<lambda>b. \<not> skipped allowedIds b) all))"
    by (rule group_bookings_keys)
  have 11: "map_option g_end (map_of (group_bookings rt allowedIds all) k) = end_of rt allowedIds all k \<and>
            map_option g_end (map_of (group_bookings rt allowedIds all') k) = end_of rt allowedIds all k"
    if ok: "\<forall>b \<in> set all. end_not_before_start rt b" for k
  proof -
    from end_not_before_start_perm[OF bk ok] have ok': "\<forall>b \<in> set all'. end_not_before_start rt b" .
    show ?thesis
      using end_of_perm[OF bk, of rt allowedIds]
      by (simp add: group_bookings_end[OF ok] group_bookings_end[OF ok'])
  qed
  have old: "mset (?B events) = mset (?B events') \<and>
     sorted (map ?f (?B events)) \<and>
     map ?f (?B events) = map ?f (?B events') \<and>
     (inj_on ?f (set (?B events)) \<longrightarrow> ?B events = ?B events') \<and>
     distinct (map (\<lambda>sl. (s_productId sl, s_start sl)) (?B events)) \<and>
     (\<forall>sl \<in> set (?B events).
        day_of (s_start sl) = dk \<and>
        s_used sl = sum_list (map event_count
           (filter (\<lambda>e. event_key e = (s_productId sl, s_start sl)) events)) \<and>
        s_end sl = Max (set (map event_end
           (filter (\<lambda>e. event_key e = (s_productId sl, s_start sl)) events)))) \<and>
     (\<forall>e \<in> set events. day_of (ev_start e) = dk \<longrightarrow>
        (\<exists>sl \<in> set (?B events).
           s_productId sl = or_zero (productId e) \<and> s_start sl = ev_start e)) \<and>
     (\<forall>k. map_option g_used (map_of (group_bookings rt allowedIds all) k) = used_of rt allowedIds all k \<and>
          map_option g_used (map_of (group_bookings rt allowedIds all') k) = used_of rt allowedIds all k)"
    using 1 2[of events] 3 4 5 6 7 8 by (simp only:) blast
  from 11 have 12: "(\<forall>b \<in> set all. end_not_before_start rt b) \<longrightarrow>
        (\<forall>k. map_option g_end (map_of (group_bookings rt allowedIds all) k) = end_of rt allowedIds all k \<and>
             map_option g_end (map_of (group_bookings rt allowedIds all') k) = end_of rt allowedIds all k)"
    by blast
  from 9 10 12 have new: "filter (\<lambda>sl. ?f sl = sk) (?B events) =
       filter (\<lambda>sl. ?f sl = sk) (filter (\<lambda>sl. day_of (s_start sl) = dk) (slots_first_seen nameMap events)) \<and>
     map fst (group_bookings rt allowedIds all) =
       first_seen (map (booking_key rt) (filter (\<lambda>b. \<not> skipped allowedIds b) all)) \<and>
     ((\<forall>b \<in> set all. end_not_before_start rt b) \<longrightarrow>
        (\<forall>k. map_option g_end (map_of (group_bookings rt allowedIds all) k) = end_of rt allowedIds all k \<and>
             map_option g_end (map_of (group_bookings rt allowedIds all') k) = end_of rt allowedIds all k))"
    by (intro conjI)
  show ?thesis
    by (insert old new, elim conjE, intro conjI; assumption)
qed

lemma dive_groups:
  "fallback_groups [dive_a, dive_b] =
     [((11, 1710072000000), \<lparr>c_productId = 11, c_start = 1710072000000, c_end = 1710079200000, c_used = 2\<rparr>),
      ((12, 1710072000000), \<lparr>c_productId = 12, c_start = 1710072000000, c_end = 1710075600000, c_used = 3\<rparr>)]"
  "fallback_groups [dive_b, dive_a] =
     [((12, 1710072000000), \<lparr>c_productId = 12, c_start = 1710072000000, c_end = 1710075600000, c_used = 3\<rparr>),
      ((11, 1710072000000), \<lparr>c_productId = 11, c_start = 1710072000000, c_end = 1710079200000, c_used = 2\<rparr>)]"
  by (simp_all add: fallback_groups_def fallback_step_def dive_a_def dive_b_def or_zero_def Let_def)

lemma dive_slots:
  "buildFallbackFromBookings code_units utc_day dive_names [dive_a, dive_b] 19792 =
     [\<lparr>s_productId = 11, s_productName = ''Dive'', s_start = 1710072000000, s_end = 1710079200000,
       s_used = 2, s_total = None\<rparr>,
      \<lparr>s_productId = 12, s_productName = ''Dive'', s_start = 1710072000000, s_end = 1710075600000,
       s_used = 3, s_total = None\<rparr>]"
  "buildFallbackFromBookings code_units utc_day dive_names [dive_b, dive_a] 19792 =
     [\<lparr>s_productId = 12, s_productName = ''Dive'', s_start = 1710072000000, s_end = 1710075600000,
       s_used = 3, s_total = None\<rparr>,
      \<lparr>s_productId = 11, s_productName = ''Dive'', s_start = 1710072000000, s_end = 1710079200000,
       s_used = 2, s_total = None\<rparr>]"
  by (simp_all add: buildFallbackFromBookings_def fallback_slots_def dive_groups slot_of_def
      dive_names_def truthy_def or_empty_def utc_day_def slot_key_def Let_def)

text \<open>
  The claim as stated fails where two slots tie: two products of the same display name at
  the same start come out in the order in which their events come in.
\<close>

theorem aggregation_tie_order_counterexample:
  "mset [dive_a, dive_b] = mset [dive_b, dive_a] \<and>
   buildFallbackFromBookings code_units utc_day dive_names [dive_a, dive_b] 19792 \<noteq>
   buildFallbackFromBookings code_units utc_day dive_names [dive_b, dive_a] 19792"
  by (simp add: dive_slots)

lemma dive3_groups:
  "fallback_groups [dive_a, dive_b, dive_c] =
     [((11, 1710072000000), \<lparr>c_productId = 11, c_start = 1710072000000, c_end = 1710082800000, c_used = 6\<rparr>),
      ((12, 1710072000000), \<lparr>c_productId = 12, c_start = 1710072000000, c_end = 1710075600000, c_used = 3\<rparr>)]"
  "fallback_groups [dive_b, dive_c, dive_a] =
     [((12, 1710072000000), \<lparr>c_productId = 12, c_start = 1710072000000, c_end = 1710075600000, c_used = 3\<rparr>),
      ((11, 1710072000000), \<lparr>c_productId = 11, c_start = 1710072000000, c_end = 1710082800000, c_used = 6\<rparr>)]"
  by (simp_all add: fallback_groups_def fallback_step_def dive_a_def dive_b_def dive_c_def or_zero_def Let_def)

lemma dive3_slots:
  "buildFallbackFromBookings code_units utc_day dive_names [dive_a, dive_b, dive_c] 19792 =
     [\<lparr>s_productId = 11, s_productName = ''Dive'', s_start = 1710072000000, s_end = 1710082800000,
       s_used = 6, s_total = None\<rparr>,
      \<lparr>s_productId = 12, s_productName = ''Dive'', s_start = 1710072000000, s_end = 1710075600000,
       s_used = 3, s_total = None\<rparr>]"
  "buildFallbackFromBookings code_units utc_day dive_names [dive_b, dive_c, dive_a] 19792 =
     [\<lparr>s_productId = 12, s_productName = ''Dive'', s_start = 1710072000000, s_end = 1710075600000,
       s_used = 3, s_total = None\<rparr>,
      \<lparr>s_productId = 11, s_productName = ''Dive'', s_start = 1710072000000, s_end = 1710082800000,
       s_used = 6, s_total = None\<rparr>]"
  by (simp_all add: buildFallbackFromBookings_def fallback_slots_def dive3_groups slot_of_def
      dive_names_def truthy_def or_empty_def utc_day_def slot_key_def Let_def)

lemma course_keys:
  "booking_key march10_rt (booking_at 1 1710072000) = (Fin 11, Fin 1710072000000)"
  "booking_key march10_rt open_end_booking = (Fin 11, Fin 1710072000000)"
  "booking_key march10_rt (booking_at 3 1710244800) = (Fin 11, Fin 1710244800000)"
  by (simp_all add: booking_key_def booking_at_def open_end_booking_def pid_num_def slot_ms_def)

lemma course_ends:
  "slot_ms march10_rt (b_end (booking_at 1 1710072000)) = Fin 1710075600000"
  "slot_ms march10_rt (b_end open_end_booking) = NaN"
  "slot_ms march10_rt (b_end (booking_at 3 1710244800)) = Fin 1710248400000"
  by (simp_all add: booking_at_def open_end_booking_def slot_ms_def)

theorem aggregation_order_independent_witness:
  "mset [dive_a, dive_b, dive_c] = mset [dive_b, dive_c, dive_a] \<and>
   mset [booking_at 1 1710072000, open_end_booking, booking_at 3 1710244800] =
     mset [booking_at 3 1710244800, open_end_booking, booking_at 1 1710072000] \<and>
   end_not_before_start march10_rt (booking_at 1 1710072000) \<and>
   end_not_before_start march10_rt open_end_booking \<and>
   end_not_before_start march10_rt (booking_at 3 1710244800) \<and>
   mset (buildFallbackFromBookings code_units utc_day dive_names [dive_a, dive_b, dive_c] 19792) =
     mset (buildFallbackFromBookings code_units utc_day dive_names [dive_b, dive_c, dive_a] 19792) \<and>
   map (slot_key code_units) (buildFallbackFromBookings code_units utc_day dive_names [dive_a, dive_b, dive_c] 19792) =
     map (slot_key code_units) (buildFallbackFromBookings code_units utc_day dive_names [dive_b, dive_c, dive_a] 19792) \<and>
   map s_productId (buildFallbackFromBookings code_units utc_day dive_names [dive_a, dive_b, dive_c] 19792) = [11, 12] \<and>
   map s_productId (buildFallbackFromBookings code_units utc_day dive_names [dive_b, dive_c, dive_a] 19792) = [12, 11] \<and>
   map s_used (buildFallbackFromBookings code_units utc_day dive_names [dive_a, dive_b, dive_c] 19792) = [6, 3] \<and>
   map s_end (buildFallbackFromBookings code_units utc_day dive_names [dive_a, dive_b, dive_c] 19792) =
     [1710082800000, 1710075600000] \<and>
   map fst (group_bookings march10_rt [] [booking_at 1 1710072000, open_end_booking, booking_at 3 1710244800]) =
     [(Fin 11, Fin 1710072000000), (Fin 11, Fin 1710244800000)] \<and>
   map_option g_used (map_of (group_bookings march10_rt []
       [booking_at 3 1710244800, open_end_booking, booking_at 1 1710072000]) (Fin 11, Fin 1710072000000)) = Some 4 \<and>
   map_option g_end (map_of (group_bookings march10_rt []
       [booking_at 3 1710244800, open_end_booking, booking_at 1 1710072000]) (Fin 11, Fin 1710072000000)) =
     Some (Fin 1710075600000)"
proof -
  let ?events = "[dive_a, dive_b, dive_c]" and ?events' = "[dive_b, dive_c, dive_a]"
  let ?all = "[booking_at 1 1710072000, open_end_booking, booking_at 3 1710244800]"
  let ?all' = "[booking_at 3 1710244800, open_end_booking, booking_at 1 1710072000]"
  let ?k = "(Fin 11, Fin 1710072000000)"
  have m: "mset ?events = mset ?events'" by simp
  have b: "mset ?all = mset ?all'" by simp
  have e1: "end_not_before_start march10_rt (booking_at 1 1710072000)"
    and e2: "end_not_before_start march10_rt open_end_booking"
    and e3: "end_not_before_start march10_rt (booking_at 3 1710244800)"
    by (simp_all add: end_not_before_start_def booking_at_def open_end_booking_def slot_ms_def js_truthy_def)
  then have ok: "\<forall>b \<in> set ?all. end_not_before_start march10_rt b" by simp
  note inst = aggregation_order_independent[where events = ?events and events' = ?events'
      and all = ?all and all' = ?all' and coll = code_units and day_of = utc_day
      and nameMap = dive_names and dk = 19792 and rt = march10_rt and allowedIds = "[]"
      and sk = "(1710072000000, code_units ''Dive'')", OF m b]
  from inst have 1: "mset (buildFallbackFromBookings code_units utc_day dive_names ?events 19792) =
     mset (buildFallbackFromBookings code_units utc_day dive_names ?events' 19792)"
    and 2: "map (slot_key code_units) (buildFallbackFromBookings code_units utc_day dive_names ?events 19792) =
     map (slot_key code_units) (buildFallbackFromBookings code_units utc_day dive_names ?events' 19792)"
    and 3: "map fst (group_bookings march10_rt [] ?all) =
       first_seen (map (booking_key march10_rt) (filter (\<lambda>b. \<not> skipped [] b) ?all))"
    and 4: "\<And>k. map_option g_used (map_of (group_bookings march10_rt [] ?all') k) = used_of march10_rt [] ?all k"
    and 5: "(\<forall>b \<in> set ?all. end_not_before_start march10_rt b) \<longrightarrow>
        (\<forall>k. map_option g_end (map_of (group_bookings march10_rt [] ?all) k) = end_of march10_rt [] ?all k \<and>
             map_option g_end (map_of (group_bookings march10_rt [] ?all') k) = end_of march10_rt [] ?all k)"
    by blast+
  from 5 ok have 6: "map_option g_end (map_of (group_bookings march10_rt [] ?all') ?k) = end_of march10_rt [] ?all ?k"
    by blast
  have 7: "map fst (group_bookings march10_rt [] ?all) = [(Fin 11, Fin 1710072000000), (Fin 11, Fin 1710244800000)]"
    unfolding 3 by (simp add: skipped_def course_keys)
  have f: "filter (\<lambda>b. \<not> skipped [] b \<and> booking_key march10_rt b = ?k) ?all =
      [booking_at 1 1710072000, open_end_booking]"
    by (simp add: skipped_def course_keys)
  have 8: "map_option g_used (map_of (group_bookings march10_rt [] ?all') ?k) = Some 4"
    unfolding 4 used_of_def Let_def f
    by (simp add: booking_at_def open_end_booking_def parseCounts_def)
  have 9: "map_option g_end (map_of (group_bookings march10_rt [] ?all') ?k) = Some (Fin 1710075600000)"
    unfolding 6 end_of_def Let_def f by (simp add: course_ends js_truthy_def)
  have 10: "map s_productId (buildFallbackFromBookings code_units utc_day dive_names ?events 19792) = [11, 12]"
    "map s_productId (buildFallbackFromBookings code_units utc_day dive_names ?events' 19792) = [12, 11]"
    "map s_used (buildFallbackFromBookings code_units utc_day dive_names ?events 19792) = [6, 3]"
    "map s_end (buildFallbackFromBookings code_units utc_day dive_names ?events 19792) = [1710082800000, 1710075600000]"
    by (simp_all add: dive3_slots)
  show ?thesis
    by (insert m b e1 e2 e3 1 2 7 8 9 10, intro conjI; assumption)
qed

text \<open>
  In the loop of the server the end of a group can depend on the order: a record without
  an end takes the start when it comes first and the end so far when it comes later.
\<close>

lemma server_end_depends_on_order:
  "map (g_end \<circ> snd) (group_bookings rt []
      [(booking_at 1 1000)\<lparr>b_end := INull\<rparr>, (booking_at 2 1000)\<lparr>b_end := INum (Fin 500)\<rparr>])
     = [Fin 1000000] \<and>
   map (g_end \<circ> snd) (group_bookings rt []
      [(booking_at 2 1000)\<lparr>b_end := INum (Fin 500)\<rparr>, (booking_at 1 1000)\<lparr>b_end := INull\<rparr>])
     = [Fin 500000]"
  by (simp add: group_bookings_def group_step_def skipped_def booking_at_def slot_ms_def pid_num_def
      js_or_def js_truthy_def parseCounts_def Let_def)

subsection \<open>Records whose start does not parse\<close>

lemma fold_keeps_key:
  "\<exists>q. fold_group init (\<lambda>prev b. prev\<lparr>g_used := u prev b, g_end := en prev b\<rparr>) (Some p) g = Some q \<and>
       g_start q = g_start p \<and> g_product_id q = g_product_id p"
proof (induction g arbitrary: p)
  case Nil
  then show ?case by (simp add: fold_group_def)
next
  case (Cons x xs)
  show ?case
    using Cons.IH[of "p\<lparr>g_used := u p x, g_end := en p x\<rparr>"]
    by (simp add: fold_group_def)
qed

text \<open>Every record that is not skipped has a group, under its own key.\<close>

lemma group_bookings_key:
  assumes "b \<in> set all" "\<not> skipped allowedIds b"
  shows "\<exists>g. map_of (group_bookings rt allowedIds all) (booking_key rt b) = Some g \<and>
             g_product_id g = pid_num (product_id b) \<and> g_start g = slot_ms rt (b_start b)"
proof -
  let ?k = "booking_key rt b"
  let ?init = "\<lambda>b. \<lparr>g_product_id = pid_num (product_id b), g_start = slot_ms rt (b_start b),
                      g_end = js_or (slot_ms rt (b_end b)) (slot_ms rt (b_start b)),
                      g_used = parseCounts (b_person_counts b)\<rparr>"
  let ?comb = "\<lambda>prev b. prev\<lparr>g_used := g_used prev + parseCounts (b_person_counts b),
                               g_end := js_max (g_end prev) (js_or (slot_ms rt (b_end b)) (g_end prev))\<rparr>"
  let ?g = "filter (\<lambda>x. \<not> skipped allowedIds x \<and> booking_key rt x = ?k) all"
  have "group_bookings rt allowedIds all =
        foldl (upsert (booking_key rt) ?init ?comb) [] (filter (\<lambda>b. \<not> skipped allowedIds b) all)"
    unfolding group_bookings_def group_step_upsert by (rule foldl_skip)
  then have m: "map_of (group_bookings rt allowedIds all) ?k = fold_group ?init ?comb None ?g"
    by (simp add: map_of_foldl_upsert filter_filter)
  have "b \<in> set ?g" using assms by simp
  then obtain x xs where g: "?g = x # xs" by (cases ?g) auto
  then have "x \<in> set ?g" by simp
  then have kx: "booking_key rt x = ?k" by simp
  have "fold_group ?init ?comb None (x # xs) = fold_group ?init ?comb (Some (?init x)) xs"
    by (simp add: fold_group_def)
  moreover from fold_keeps_key[where init = ?init
      and u = "\<lambda>prev b. g_used prev + parseCounts (b_person_counts b)"
      and en = "\<lambda>prev b. js_max (g_end prev) (js_or (slot_ms rt (b_end b)) (g_end prev))"
      and p = "?init x" and g = xs]
  obtain q where "fold_group ?init ?comb (Some (?init x)) xs = Some q"
    "g_start q = g_start (?init x)" "g_product_id q = g_product_id (?init x)" by blast
  ultimately have "map_of (group_bookings rt allowedIds all) ?k = Some q \<and>
      g_product_id q = fst (booking_key rt x) \<and> g_start q = snd (booking_key rt x)"
    using m g by (simp add: booking_key_def)
  then show ?thesis unfolding kx by (auto simp: booking_key_def)
qed

lemma exn_unique: "(e :: exn) = RangeError"
  by (cases e) simp

lemma rows_of_throws:
  assumes "v \<in> set vs" "toISOString (g_start v) = Inl RangeError"
  shows "rows_of nameMap totalsMap vs = Inl RangeError"
  using assms
proof (induction vs)
  case Nil
  then show ?case by simp
next
  case (Cons w ws)
  show ?case
  proof (cases "v = w")
    case True
    then show ?thesis using Cons.prems(2) by (simp add: row_of_def)
  next
    case False
    then have "rows_of nameMap totalsMap ws = Inl RangeError" using Cons by simp
    then show ?thesis
      by (cases "row_of nameMap totalsMap w") (auto simp: exn_unique)
  qed
qed

text \<open>With such a group the answer cannot be built: the request fails with status 500.\<close>

lemma unparseable_start_fails_request:
  assumes cfg: "getWooConfig e = Some config"
    and miss: "cache (avail_cacheKey q (remdups (filter (\<lambda>n. n > 0) (product_ids q)))) = None"
    and rec: "b \<in> set (availability_pages up 1 [])"
    and kept: "\<not> skipped (remdups (filter (\<lambda>n. n > 0) (product_ids q))) b"
    and nan: "slot_ms rt (b_start b) = NaN"
  shows "a_status (fst (handleAvailabilityRange rt e q cache up nameMap totalsMap)) = 500"
proof -
  let ?ids = "remdups (filter (\<lambda>n. n > 0) (product_ids q))"
  let ?groups = "group_bookings rt ?ids (availability_pages up 1 [])"
  from group_bookings_key[OF rec kept, of rt] obtain g where
    g: "map_of ?groups (booking_key rt b) = Some g" "g_start g = NaN"
    using nan by auto
  from g(1) have "(booking_key rt b, g) \<in> set ?groups" by (rule map_of_SomeD)
  then have "g \<in> set (map snd ?groups)" by force
  moreover have "toISOString (g_start g) = Inl RangeError" by (simp add: g(2) toISOString_def)
  ultimately have "rows_of nameMap totalsMap (map snd ?groups) = Inl RangeError"
    by (rule rows_of_throws)
  then show ?thesis using cfg miss by (simp add: handleAvailabilityRange_def Let_def)
qed

text \<open>
  A record whose start is a string that \<open>Date.parse\<close> rejects is counted, with the other
  records of its product whose start does not parse, in a group under the key (product
  identifier, \<open>NaN\<close>); and \<open>parseBookingDateToMs\<close> takes the current time for such a string
  (unless it has the form \<open>YYYY-MM-DD HH:mm:ss\<close>).
\<close>

lemma unparseable_start_is_grouped:
  assumes rec: "b \<in> set all"
    and kept: "\<not> skipped allowedIds b"
    and str: "b_start b = IStr s"
    and unparseable: "date_parse rt s = None"
  shows "(\<exists>g. map_of (group_bookings rt allowedIds all) (pid_num (product_id b), NaN) = Some g \<and>
              g_product_id g = pid_num (product_id b) \<and> g_start g = NaN \<and>
              g_used g = sum_list (map (\<lambda>x. parseCounts (b_person_counts x))
                 (filter (\<lambda>x. \<not> skipped allowedIds x \<and>
                     booking_key rt x = (pid_num (product_id b), NaN)) all))) \<and>
         b \<in> set (filter (\<lambda>x. \<not> skipped allowedIds x \<and>
                     booking_key rt x = (pid_num (product_id b), NaN)) all) \<and>
         (if wc_format s then True else parseBookingDateToMs rt (b_start b) = date_now rt)"
proof -
  have nan: "slot_ms rt (b_start b) = NaN" using str unparseable by (simp add: slot_ms_def)
  then have k: "booking_key rt b = (pid_num (product_id b), NaN)" by (simp add: booking_key_def)
  from group_bookings_key[OF rec kept, of rt] obtain g where
    g: "map_of (group_bookings rt allowedIds all) (pid_num (product_id b), NaN) = Some g"
    "g_product_id g = pid_num (product_id b)" "g_start g = NaN"
    unfolding k nan by blast
  have mem: "b \<in> set (filter (\<lambda>x. \<not> skipped allowedIds x \<and>
                     booking_key rt x = (pid_num (product_id b), NaN)) all)"
    using rec kept k by simp
  have ne: "filter (\<lambda>x. \<not> skipped allowedIds x \<and>
                     booking_key rt x = (pid_num (product_id b), NaN)) all \<noteq> []"
  proof
    assume e: "filter (\<lambda>x. \<not> skipped allowedIds x \<and>
                     booking_key rt x = (pid_num (product_id b), NaN)) all = []"
    from mem[unfolded e] show False by simp
  qed
  have "map_option g_used (map_of (group_bookings rt allowedIds all) (pid_num (product_id b), NaN)) =
        used_of rt allowedIds all (pid_num (product_id b), NaN)"
    by (rule group_bookings_used)
  then have u: "g_used g = sum_list (map (\<lambda>x. parseCounts (b_person_counts x))
                 (filter (\<lambda>x. \<not> skipped allowedIds x \<and>
                     booking_key rt x = (pid_num (product_id b), NaN)) all))"
    using g(1) ne by (simp add: used_of_def)
  have now: "parseBookingDateToMs rt (b_start b) = date_now rt" if "\<not> wc_format s"
    using that str unparseable by (simp add: parseBookingDateToMs_def parse_or_now_def)
  from g u mem now show ?thesis by auto
qed

lemma bad_pages: "availability_pages bad_page 1 [] = [booking_at 1 1710072000, bad_booking]"
  by (subst availability_pages.simps) (simp add: bad_page_def)

lemma bad_groups:
  "group_bookings march10_rt [] [booking_at 1 1710072000, bad_booking] =
     [((Fin 11, Fin 1710072000000),
       \<lparr>g_product_id = Fin 11, g_start = Fin 1710072000000, g_end = Fin 1710075600000, g_used = 2\<rparr>),
      ((Fin 11, NaN),
       \<lparr>g_product_id = Fin 11, g_start = NaN, g_end = Fin 1710075600000, g_used = 2\<rparr>)]"
  by (simp add: group_bookings_def group_step_def skipped_def booking_at_def bad_booking_def
      slot_ms_def pid_num_def js_or_def js_truthy_def parseCounts_def march10_rt_def Let_def)

lemma good_pages: "availability_pages good_page 1 [] = [booking_at 1 1710072000]"
  by (subst availability_pages.simps) (simp add: good_page_def)

lemma good_groups:
  "group_bookings march10_rt [] [booking_at 1 1710072000] =
     [((Fin 11, Fin 1710072000000),
       \<lparr>g_product_id = Fin 11, g_start = Fin 1710072000000, g_end = Fin 1710075600000, g_used = 2\<rparr>)]"
  by (simp add: group_bookings_def group_step_def skipped_def booking_at_def
      slot_ms_def pid_num_def js_or_def js_truthy_def parseCounts_def Let_def)

text \<open>
  C5. A booking record whose start does not normalise is not left out of the availability
  aggregation. For the page that holds a booking of product 11 at noon of 10 March 2024
  and one of the same product with the start \<open>next tuesday\<close>: \<open>toUtcMs\<close> gives \<open>null\<close> for
  that start, yet the grouping loop of \<open>handleAvailabilityRange\<close> gives the record a group
  under the key (11, \<open>NaN\<close>); building the answer then throws, and the request answers
  with status 500 and no rows, where the page without the record answers with its one
  row. \<open>parseBookingDateToMs\<close> reads the same start as the current time.
\<close>

theorem unparseable_start_fails_availability:
  "toUtcMs march10_rt (b_start bad_booking) ''UTC'' = None \<and>
   map fst (group_bookings march10_rt [] [booking_at 1 1710072000, bad_booking]) =
     [(Fin 11, Fin 1710072000000), (Fin 11, NaN)] \<and>
   fst (handleAvailabilityRange march10_rt shop_env \<lparr>min_date = None, max_date = None, product_ids = []\<rparr>
          Map.empty bad_page dive_names Map.empty) =
     \<lparr>a_status = 500, a_success = False, a_data = [], a_total = 0, a_cached = False,
      a_error = Some ''Invalid time value''\<rparr> \<and>
   fst (handleAvailabilityRange march10_rt shop_env \<lparr>min_date = None, max_date = None, product_ids = []\<rparr>
          Map.empty good_page dive_names Map.empty) =
     \<lparr>a_status = 200, a_success = True,
      a_data = [\<lparr>row_product_id = Fin 11, row_product_name = ''Dive'', row_start = 1710072000000,
                 row_end = 1710075600000, row_used = 2, row_total = None\<rparr>],
      a_total = 1, a_cached = False, a_error = None\<rparr> \<and>
   parseBookingDateToMs march10_rt (b_start bad_booking) = date_now march10_rt"
proof -
  have 0: "toUtcMs march10_rt (b_start bad_booking) ''UTC'' = None"
    by (simp add: bad_booking_def toUtcMs_def trim_def is_ws_def all_digits_def is_digit_def
        has_zone_marker_def offset_suffix_def zonedNaiveToUtcMs_def
        parseNaiveDateTime_def date_part_ok_def Let_def)
  have 1: "map fst (group_bookings march10_rt [] [booking_at 1 1710072000, bad_booking]) =
     [(Fin 11, Fin 1710072000000), (Fin 11, NaN)]"
    by (simp add: bad_groups)
  have t: "rows_of dive_names Map.empty
      (map snd (group_bookings march10_rt [] [booking_at 1 1710072000, bad_booking])) = Inl RangeError"
    by (rule rows_of_throws[where v = "\<lparr>g_product_id = Fin 11, g_start = NaN, g_end = Fin 1710075600000, g_used = 2\<rparr>"])
       (simp_all add: bad_groups toISOString_def)
  have 2: "fst (handleAvailabilityRange march10_rt shop_env \<lparr>min_date = None, max_date = None, product_ids = []\<rparr>
          Map.empty bad_page dive_names Map.empty) =
     \<lparr>a_status = 500, a_success = False, a_data = [], a_total = 0, a_cached = False,
      a_error = Some ''Invalid time value''\<rparr>"
    using bad_pages t
    by (simp add: handleAvailabilityRange_def getWooConfig_def shop_env_def truthy_def Let_def)
  have r: "rows_of dive_names Map.empty (map snd (group_bookings march10_rt [] [booking_at 1 1710072000])) =
      Inr [\<lparr>row_product_id = Fin 11, row_product_name = ''Dive'', row_start = 1710072000000,
                 row_end = 1710075600000, row_used = 2, row_total = None\<rparr>]"
    by (simp add: good_groups row_of_def toISOString_def row_name_def dive_names_def truthy_def
        or_empty_def Let_def)
  have 3: "fst (handleAvailabilityRange march10_rt shop_env \<lparr>min_date = None, max_date = None, product_ids = []\<rparr>
          Map.empty good_page dive_names Map.empty) =
     \<lparr>a_status = 200, a_success = True,
      a_data = [\<lparr>row_product_id = Fin 11, row_product_name = ''Dive'', row_start = 1710072000000,
                 row_end = 1710075600000, row_used = 2, row_total = None\<rparr>],
      a_total = 1, a_cached = False, a_error = None\<rparr>"
    using good_pages r
    by (simp add: handleAvailabilityRange_def getWooConfig_def shop_env_def truthy_def Let_def)
  have 4: "parseBookingDateToMs march10_rt (b_start bad_booking) = date_now march10_rt"
    by (simp add: parseBookingDateToMs_def parse_or_now_def bad_booking_def wc_format_def
        march10_rt_def)
  from 0 1 2 3 4 show ?thesis by blast
qed

end
